theory Spec2Isabelle
  imports Complex_Main "HOL-Library.Product_Lexorder" "HOL-Library.Sublist"
begin

section \<open>Capture lifecycle (emotion\_service.py)\<close>

text \<open>
  The fields of \<open>EmotionService\<close> that the lifecycle methods read and write. A worker
  thread slot is \<open>None\<close> while no thread object has been created, and \<open>Some b\<close>
  afterwards, \<open>b\<close> being what \<open>is_alive()\<close> answers. The two counters are ghost
  fields: they count the calls of \<open>Thread.start()\<close> for each worker. The methods are
  modelled as they run one after the other; a worker leaving its loop is a step of the
  worker, not of these methods.
\<close>

record emotion_service =
  logging_sessions :: "string set"
  cam_thread :: "bool option"
  stop_cam :: bool
  log_thread :: "bool option"
  stop_log :: bool
  cam_starts :: nat
  log_starts :: nat

definition init_service :: emotion_service where
  "init_service =
     \<lparr>logging_sessions = {}, cam_thread = None, stop_cam = False,
      log_thread = None, stop_log = False, cam_starts = 0, log_starts = 0\<rparr>"

definition start_camera :: "emotion_service \<Rightarrow> emotion_service" where
  "start_camera st =
     (if cam_thread st = Some True then st
      else st\<lparr>stop_cam := False, cam_thread := Some True, cam_starts := cam_starts st + 1\<rparr>)"

text \<open>\<open>t.join(timeout=2)\<close> waits and returns; it changes no field of the service.\<close>

definition stop_camera :: "emotion_service \<Rightarrow> emotion_service" where
  "stop_camera st = st\<lparr>stop_cam := True\<rparr>"

definition start_logging :: "string \<Rightarrow> emotion_service \<Rightarrow> emotion_service" where
  "start_logging session_id st =
     (let st1 = st\<lparr>logging_sessions := insert session_id (logging_sessions st)\<rparr>;
          st2 = start_camera st1
      in if log_thread st2 = Some True then st2
         else st2\<lparr>stop_log := False, log_thread := Some True, log_starts := log_starts st2 + 1\<rparr>)"

definition stop_logging :: "string \<Rightarrow> emotion_service \<Rightarrow> emotion_service" where
  "stop_logging session_id st =
     (let st1 = st\<lparr>logging_sessions := logging_sessions st - {session_id}\<rparr>;
          empty = (logging_sessions st1 = {})
      in if empty then stop_camera (st1\<lparr>stop_log := True\<rparr>) else st1)"

definition workers_running :: "emotion_service \<Rightarrow> bool" where
  "workers_running st \<longleftrightarrow>
     cam_thread st = Some True \<and> log_thread st = Some True \<and> \<not> stop_cam st \<and> \<not> stop_log st"

definition workers_signalled :: "emotion_service \<Rightarrow> bool" where
  "workers_signalled st \<longleftrightarrow> stop_cam st \<and> stop_log st"

section \<open>Numbers and text\<close>

text \<open>
  Python floats are modelled as real numbers: every operation is the exact one, so
  the results below speak of the arithmetic the code asks for, not of binary rounding
  error. \<open>round(x, nd)\<close> rounds to \<open>nd\<close> decimals, a tie going to the even
  neighbour.
\<close>

definition py_round :: "real \<Rightarrow> nat \<Rightarrow> real" where
  "py_round x nd =
     (let y = x * 10 ^ nd; f = \<lfloor>y\<rfloor>; d = y - of_int f
      in of_int (if d < 1 / 2 then f else if 1 / 2 < d then f + 1
                 else if even f then f else f + 1) / 10 ^ nd)"

definition clamp_0_10 :: "real \<Rightarrow> real" where
  "clamp_0_10 x = max 0 (min 10 x)"

text \<open>
  Strings are lists of 8-bit characters, read as code points; the character classes are
  those of Python on the ASCII range (\<open>str.isspace\<close> and the pattern \<open>\s\<close>: 9 to 13
  and 28 to 32; \<open>\d\<close>: the ten digits; \<open>\w\<close>: letters, digits and the underscore).
\<close>

definition is_space :: "char \<Rightarrow> bool" where
  "is_space c \<longleftrightarrow>
     c \<in> set [CHR 0x09, CHR 0x0A, CHR 0x0B, CHR 0x0C, CHR 0x0D,
              CHR 0x1C, CHR 0x1D, CHR 0x1E, CHR 0x1F, CHR 0x20]"

definition is_digit :: "char \<Rightarrow> bool" where
  "is_digit c \<longleftrightarrow> c \<in> set ''0123456789''"

definition upper_chars :: string where
  "upper_chars = ''ABCDEFGHIJKLMNOPQRSTUVWXYZ''"

definition lower_chars :: string where
  "lower_chars = ''abcdefghijklmnopqrstuvwxyz''"

definition is_word :: "char \<Rightarrow> bool" where
  "is_word c \<longleftrightarrow> c \<in> set lower_chars \<or> c \<in> set upper_chars \<or> is_digit c \<or> c = CHR ''_''"

definition lower_char :: "char \<Rightarrow> char" where
  "lower_char c = (case map_of (zip upper_chars lower_chars) c of Some l \<Rightarrow> l | None \<Rightarrow> c)"

definition lower :: "string \<Rightarrow> string" where
  "lower s = map lower_char s"

definition lstrip :: "string \<Rightarrow> string" where
  "lstrip s = dropWhile is_space s"

definition rstrip :: "string \<Rightarrow> string" where
  "rstrip s = rev (dropWhile is_space (rev s))"

definition strip :: "string \<Rightarrow> string" where
  "strip s = rstrip (lstrip s)"

section \<open>Emotion scoring (evaluation\_service.py)\<close>

text \<open>
  A timestamp of an event is an aware datetime in UTC: year, month, day, hour, minute,
  second, microsecond. Python orders such values field by field, which is the
  lexicographic order of the tuple.
\<close>

type_synonym datetime = "nat \<times> nat \<times> nat \<times> nat \<times> nat \<times> nat \<times> nat"

record EmotionEvent =
  ts :: datetime
  emotion :: string

text \<open>
  The dict \<open>counts\<close> keeps its keys in insertion order; it is an association list.
  \<open>bump\<close> is \<open>counts[emo] = counts.get(emo, 0) + 1\<close>, \<open>dict_get\<close> is \<open>d.get(k, dflt)\<close>.
\<close>

fun bump :: "string \<Rightarrow> (string \<times> nat) list \<Rightarrow> (string \<times> nat) list" where
  "bump k [] = [(k, 1)]"
| "bump k ((k', v) # kvs) = (if k = k' then (k', v + 1) # kvs else (k', v) # bump k kvs)"

definition dict_get :: "(string \<times> 'v) list \<Rightarrow> string \<Rightarrow> 'v \<Rightarrow> 'v" where
  "dict_get d k dflt = (case map_of d k of None \<Rightarrow> dflt | Some v \<Rightarrow> v)"

definition count_labels :: "EmotionEvent list \<Rightarrow> (string \<times> nat) list" where
  "count_labels events = foldl (\<lambda>counts e. bump (strip (lower (emotion e))) counts) [] events"

text \<open>
  \<open>score_emotion_face_base10\<close> returns the score and an explanatory dict; the model
  returns the score.
\<close>

definition score_emotion_face_base10 :: "EmotionEvent list \<Rightarrow> real" where
  "score_emotion_face_base10 events =
     (if events = [] then 7.0
      else
        let counts = count_labels events;
            total = sum_list (map snd counts);
            ratios = map (\<lambda>(k, v). (k, real v / real total)) counts;
            angry_r = dict_get ratios ''angry'' 0.0;
            disgust_r = dict_get ratios ''disgust'' 0.0;
            fear_r = dict_get ratios ''fear'' 0.0;
            sad_r = dict_get ratios ''sad'' 0.0;
            happy_r = dict_get ratios ''happy'' 0.0;
            neutral_r = dict_get ratios ''neutral'' 0.0;
            surprise_r = dict_get ratios ''surprise'' 0.0;
            score = 10.0;
            angry_pen = 1.2 * angry_r * 10.0;
            disgust_pen = 1.0 * disgust_r * 10.0;
            fear_pen = 0.6 * fear_r * 10.0;
            sad_pen = 0.4 * sad_r * 10.0;
            score = score - (angry_pen + disgust_pen + fear_pen + sad_pen);
            happy_bonus = 0.15 * happy_r * 10.0;
            neutral_bonus = 0.10 * neutral_r * 10.0;
            surprise_bonus = 0.08 * surprise_r * 10.0;
            score = score + (happy_bonus + neutral_bonus + surprise_bonus);
            score = max 0.0 (min 10.0 score)
        in py_round score 2)"

text \<open>
  The seven fixed categories, and the quantities the specification speaks of: the
  frequency ratio of a label over the event count, a label being read as the scorer
  reads it (lower-cased and stripped), and the score as a formula of the seven ratios.
\<close>

definition emotion_labels :: "string list" where
  "emotion_labels = [''angry'', ''disgust'', ''fear'', ''happy'', ''sad'', ''surprise'', ''neutral'']"

definition label_count :: "string \<Rightarrow> EmotionEvent list \<Rightarrow> nat" where
  "label_count x events = length (filter (\<lambda>e. strip (lower (emotion e)) = x) events)"

definition label_ratio :: "string \<Rightarrow> EmotionEvent list \<Rightarrow> real" where
  "label_ratio x events = real (label_count x events) / real (length events)"

definition spec_emotion_score :: "(string \<Rightarrow> real) \<Rightarrow> real" where
  "spec_emotion_score r =
     py_round (clamp_0_10
       (10 - (1.2 * r ''angry'' + 1.0 * r ''disgust'' + 0.6 * r ''fear'' + 0.4 * r ''sad'') * 10
           + (0.15 * r ''happy'' + 0.10 * r ''neutral'' + 0.08 * r ''surprise'') * 10)) 2"

definition emotion_raw :: "(string \<Rightarrow> real) \<Rightarrow> real" where
  "emotion_raw r =
     10 - (1.2 * r ''angry'' + 1.0 * r ''disgust'' + 0.6 * r ''fear'' + 0.4 * r ''sad'') * 10
        + (0.15 * r ''happy'' + 0.10 * r ''neutral'' + 0.08 * r ''surprise'') * 10"

definition ev :: "string \<Rightarrow> EmotionEvent" where
  "ev l = \<lparr>ts = (2025, 1, 1, 0, 0, 0, 0), emotion = l\<rparr>"

section \<open>Data sufficiency and score fusion (evaluation\_service.py)\<close>

definition MIN_REQUIRED :: nat where
  "MIN_REQUIRED = 10"

definition P :: real where
  "P = 1.8"

definition BONUS_MAX :: real where
  "BONUS_MAX = 0.8"

definition K :: nat where
  "K = 10"

definition BAD_SHORT :: "string list" where
  "BAD_SHORT = [''no'', ''idk'', ''i don't know'', ''n/a'', ''.'', ''nah'', ''(no answer provided)'']"

definition is_valid_answer :: "string \<Rightarrow> bool" where
  "is_valid_answer ans =
     (if ans = [] then False
      else let t = lower (strip ans)
           in if t = [] \<or> t \<in> set BAD_SHORT then False
              else if length t < 20 then False
              else True)"

text \<open>
  The dict \<open>detail\<close> of \<open>apply_data_sufficiency\<close>, without its constant entries
  (\<open>params\<close> and \<open>rule\<close>).
\<close>

record ds_detail =
  min_required :: nat
  n_valid_answers :: nat
  coverage_factor :: real
  bonus :: real
  raw_knowledge :: real
  raw_attitude :: real
  adjusted_knowledge :: real
  adjusted_attitude :: real
  adjusted_agent_final :: real

text \<open>
  \<open>n_valid\<close> is a count of answers, a natural number. \<open>ratio ** P\<close> on a
  non-negative base is \<open>powr\<close>, with \<open>0.0 ** 1.8 = 0.0\<close>. \<open>(w_k + w_a) or 1.0\<close> is
  \<open>1.0\<close> when the sum is zero.
\<close>

definition apply_data_sufficiency ::
  "real \<Rightarrow> real \<Rightarrow> real \<Rightarrow> real \<Rightarrow> nat \<Rightarrow> real \<times> real \<times> real \<times> ds_detail" where
  "apply_data_sufficiency ks ats w_k w_a n_valid =
     (let ratio = min 1.0 (real n_valid / real MIN_REQUIRED);
          coverage = ratio powr P;
          ks_adj = max 0.0 (min 10.0 (ks * coverage));
          ats_adj = max 0.0 (min 10.0 (ats * coverage));
          bonus0 = 0.0;
          (bonus1, ks_adj, ats_adj) =
            (if n_valid > MIN_REQUIRED then
               let bonus1 = BONUS_MAX * (1.0 - exp (- (real n_valid - real MIN_REQUIRED) / real K));
                   total_w = (if w_k + w_a = 0 then 1.0 else w_k + w_a)
               in (bonus1, min 10.0 (ks_adj + bonus1 * (w_k / total_w)),
                   min 10.0 (ats_adj + bonus1 * (w_a / total_w)))
             else (bonus0, ks_adj, ats_adj));
          agent_final_adj = max 0.0 (min 10.0 (ks_adj * w_k + ats_adj * w_a));
          detail = \<lparr>min_required = MIN_REQUIRED, n_valid_answers = n_valid,
                    coverage_factor = py_round coverage 4, bonus = py_round bonus1 4,
                    raw_knowledge = ks, raw_attitude = ats,
                    adjusted_knowledge = py_round ks_adj 2,
                    adjusted_attitude = py_round ats_adj 2,
                    adjusted_agent_final = py_round agent_final_adj 2\<rparr>
      in (py_round ks_adj 2, py_round ats_adj 2, py_round agent_final_adj 2, detail))"

text \<open>
  The quantities of the specification's algorithm, before any rounding: ratio, coverage,
  bonus, the two adjusted scores and the adjusted final.
\<close>

definition spec_ratio :: "nat \<Rightarrow> real" where
  "spec_ratio n_valid = min 1 (real n_valid / 10)"

definition spec_coverage :: "nat \<Rightarrow> real" where
  "spec_coverage n_valid = spec_ratio n_valid powr 1.8"

definition spec_bonus :: "nat \<Rightarrow> real" where
  "spec_bonus n_valid =
     (if n_valid > 10 then 0.8 * (1 - exp (- (real n_valid - 10) / 10)) else 0)"

definition spec_adjusted :: "real \<Rightarrow> real \<Rightarrow> real \<Rightarrow> nat \<Rightarrow> real" where
  "spec_adjusted raw w total_w n_valid =
     (if n_valid > 10
      then min 10 (clamp_0_10 (raw * spec_coverage n_valid) + spec_bonus n_valid * (w / total_w))
      else clamp_0_10 (raw * spec_coverage n_valid))"

definition spec_total_w :: "real \<Rightarrow> real \<Rightarrow> real" where
  "spec_total_w w_k w_a = (if w_k + w_a = 0 then 1 else w_k + w_a)"

definition spec_final :: "real \<Rightarrow> real \<Rightarrow> real \<Rightarrow> real \<Rightarrow> nat \<Rightarrow> real" where
  "spec_final ks ats w_k w_a n_valid =
     clamp_0_10 (spec_adjusted ks w_k (spec_total_w w_k w_a) n_valid * w_k
                 + spec_adjusted ats w_a (spec_total_w w_k w_a) n_valid * w_a)"

datatype jvalue = JOpaque string | JDetail ds_detail

text \<open>
  \<open>explanation\<close> is the dict returned by the judge, its values opaque, to which
  \<open>evaluate\<close> adds the entry \<open>data_sufficiency\<close>.
\<close>

record AgentScores =
  knowledge_score :: real
  attitude_score :: real
  agent_final_score :: real
  explanation :: "(string \<times> jvalue) list"

text \<open>The dict returned by \<open>compute_total_patched\<close>; an absent value is \<open>None\<close>.\<close>

record overall =
  emotion_face_score :: real
  overall_knowledge_score :: "real option"
  overall_attitude_score :: "real option"
  overall_agent_final_score :: "real option"
  total_score :: "real option"
  detail_components :: "(real \<times> real) option"
  detail_weights :: "real \<times> real"
  data_sufficiency :: "ds_detail option"

definition compute_total_patched ::
  "real \<Rightarrow> AgentScores option \<Rightarrow> real \<Rightarrow> real \<Rightarrow> overall" where
  "compute_total_patched emotion_face_score' agent_scores w_agent_final w_emotion =
     (case agent_scores of
        None \<Rightarrow>
          \<lparr>emotion_face_score = py_round emotion_face_score' 2,
           overall_knowledge_score = None,
           overall_attitude_score = None,
           overall_agent_final_score = None,
           total_score = None,
           detail_components = None,
           detail_weights = (w_agent_final, w_emotion),
           data_sufficiency = None\<rparr>
      | Some sc \<Rightarrow>
          let agent_final = clamp_0_10 (agent_final_score sc);
              total = clamp_0_10 (agent_final * w_agent_final + emotion_face_score' * w_emotion)
          in \<lparr>emotion_face_score = py_round emotion_face_score' 2,
              overall_knowledge_score = Some (knowledge_score sc),
              overall_attitude_score = Some (attitude_score sc),
              overall_agent_final_score = Some (py_round agent_final 2),
              total_score = Some (py_round total 2),
              detail_components =
                Some (py_round (agent_final * w_agent_final) 4,
                      py_round (emotion_face_score' * w_emotion) 4),
              detail_weights = (w_agent_final, w_emotion),
              data_sufficiency = None\<rparr>)"



section \<open>Text primitives of the parsers\<close>

text \<open>
  \<open>str.splitlines()\<close>: a line ends at a line feed, a carriage return (with a following
  line feed, if any), a vertical tab, a form feed or one of the separators 0x1C, 0x1D,
  0x1E; the boundary is dropped, and no empty last line is produced.
\<close>

definition is_linebreak :: "char \<Rightarrow> bool" where
  "is_linebreak c \<longleftrightarrow>
     c \<in> set [CHR 0x0A, CHR 0x0B, CHR 0x0C, CHR 0x0D, CHR 0x1C, CHR 0x1D, CHR 0x1E]"

definition skip_lf :: "char \<Rightarrow> string \<Rightarrow> string" where
  "skip_lf c r = (if c = CHR 0x0D \<and> r \<noteq> [] \<and> hd r = CHR 0x0A then tl r else r)"

function splitlines :: "string \<Rightarrow> string list" where
  "splitlines s =
     (if s = [] then []
      else takeWhile (\<lambda>c. \<not> is_linebreak c) s #
           (case dropWhile (\<lambda>c. \<not> is_linebreak c) s of
              [] \<Rightarrow> []
            | c # r \<Rightarrow> splitlines (skip_lf c r)))"
  by pat_completeness auto
termination
proof (relation "measure length")
  show "wf (measure length)" by simp
next
  fix s :: string and c r
  assume "s \<noteq> []" and d: "dropWhile (\<lambda>c. \<not> is_linebreak c) s = c # r"
  have "length (skip_lf c r) \<le> length r" by (simp add: skip_lf_def)
  moreover have "length (c # r) \<le> length s"
    using length_dropWhile_le [of "\<lambda>c. \<not> is_linebreak c" s] d by simp
  ultimately show "(skip_lf c r, s) \<in> measure length" by simp
qed

text \<open>\<open>sep.join(xs)\<close>, \<open>s.replace("\t", " ")\<close>, \<open>sub in s\<close>, \<open>s.startswith(p)\<close>.\<close>

fun join :: "string \<Rightarrow> string list \<Rightarrow> string" where
  "join sep [] = []"
| "join sep [x] = x"
| "join sep (x # y # xs) = x @ sep @ join sep (y # xs)"

definition replace_tab :: "string \<Rightarrow> string" where
  "replace_tab s = map (\<lambda>c. if c = CHR 0x09 then CHR 0x20 else c) s"

definition startswith :: "string \<Rightarrow> string \<Rightarrow> bool" where
  "startswith s p \<longleftrightarrow> take (length p) s = p"

fun str_contains :: "string \<Rightarrow> string \<Rightarrow> bool" where
  "str_contains sub [] = (sub = [])"
| "str_contains sub (c # cs) = (startswith (c # cs) sub \<or> str_contains sub cs)"

text \<open>
  \<open>re.split(r"\s+", s)\<close>: the pieces between the maximal runs of whitespace, an empty
  piece standing before a leading run and after a trailing one.
\<close>

function re_split_ws :: "string \<Rightarrow> string list" where
  "re_split_ws s =
     (let tok = takeWhile (\<lambda>c. \<not> is_space c) s;
          r = dropWhile (\<lambda>c. \<not> is_space c) s
      in if r = [] then [tok] else tok # re_split_ws (dropWhile is_space r))"
  by pat_completeness auto
termination
proof (relation "measure length")
  show "wf (measure length)" by simp
next
  fix s :: string and tok r
  assume r: "r = dropWhile (\<lambda>c. \<not> is_space c) s" and ne: "r \<noteq> []"
  have h: "is_space (hd r)" using r ne hd_dropWhile [of "\<lambda>c. \<not> is_space c" s] by auto
  have "length (dropWhile is_space r) < length r"
    using ne h by (cases r) (auto simp: length_dropWhile_le le_imp_less_Suc)
  moreover have "length r \<le> length s" using r by (simp add: length_dropWhile_le)
  ultimately show "(dropWhile is_space r, s) \<in> measure length" by simp
qed

text \<open>
  \<open>s.split(sep)[-1]\<close> for a non-empty separator: what follows the last occurrence of
  \<open>sep\<close> found scanning from the left, or \<open>s\<close> itself when there is none.
\<close>

function split_last :: "string \<Rightarrow> string \<Rightarrow> string" where
  "split_last sep s =
     (if sep = [] \<or> \<not> str_contains sep s then s
      else if startswith s sep then split_last sep (drop (length sep) s)
      else split_last sep (tl s))"
  by pat_completeness auto
termination
proof (relation "measure (\<lambda>(sep, s). length s)")
  show "wf (measure (\<lambda>(sep :: string, s :: string). length s))" by simp
next
  fix sep s :: string
  assume a: "\<not> (sep = [] \<or> \<not> str_contains sep s)"
  then have "s \<noteq> []" by (cases s) auto
  with a show "((sep, drop (length sep) s), sep, s) \<in> measure (\<lambda>(sep, s). length s)"
    by simp
next
  fix sep s :: string
  assume a: "\<not> (sep = [] \<or> \<not> str_contains sep s)"
  then have "s \<noteq> []" by (cases s) auto
  then show "((sep, tl s), sep, s) \<in> measure (\<lambda>(sep, s). length s)"
    by simp
qed

text \<open>\<open>str(n)\<close> on a natural number.\<close>

definition digit_char :: "nat \<Rightarrow> char" where
  "digit_char d = ''0123456789'' ! d"

definition digit_val :: "char \<Rightarrow> nat" where
  "digit_val c = (case map_of (zip ''0123456789'' [0, 1, 2, 3, 4, 5, 6, 7, 8, 9]) c of
        Some d \<Rightarrow> d
      | None \<Rightarrow> 0)"

fun str_nat :: "nat \<Rightarrow> string" where
  "str_nat n = (if n < 10 then [digit_char n] else str_nat (n div 10) @ [digit_char (n mod 10)])"

text \<open>
  The exceptions of the program, as values. \<open>ValueError\<close> carries its message,
  \<open>UnboundLocalError\<close> the name of the variable, \<open>HTTPException\<close> the status code.
\<close>

datatype error =
  HTTPException nat | FileNotFoundError | UnboundLocalError string | ValueError string

text \<open>
  \<open>int(s)\<close> on a non-empty string of decimal digits, as the header patterns hand it
  over. The conversion refuses a string of more than \<open>sys.get_int_max_str_digits()\<close>
  characters, 4300 unless the interpreter is configured otherwise, and raises
  \<open>ValueError\<close>; leading zeros count.
\<close>

definition MAX_STR_DIGITS :: nat where
  "MAX_STR_DIGITS = 4300"

definition py_int :: "string \<Rightarrow> error + nat" where
  "py_int ds =
     (if length ds > MAX_STR_DIGITS
      then Inl (ValueError
             (''Exceeds the limit ('' @ str_nat MAX_STR_DIGITS @
              '' digits) for integer string conversion: value has '' @ str_nat (length ds) @
              '' digits; use sys.set_int_max_str_digits() to increase the limit''))
      else Inr (foldl (\<lambda>a c. 10 * a + digit_val c) 0 ds))"

declare splitlines.simps [simp del]

declare re_split_ws.simps [simp del]

declare split_last.simps [simp del]

declare str_nat.simps [simp del]

section \<open>Emotion log parsing (evaluation\_service.py)\<close>

text \<open>
  \<open>datetime.fromisoformat(s).astimezone(timezone.utc)\<close> belongs to the Python library:
  it is the parameter \<open>fromiso\<close> of the parser, \<open>None\<close> standing for an exception.
\<close>

type_synonym fromisoformat = "string \<Rightarrow> datetime option"

definition parse_iso_z :: "fromisoformat \<Rightarrow> string \<Rightarrow> datetime option" where
  "parse_iso_z fromiso tstr =
     (let t = strip tstr
      in if t = [] then None
         else let t = (if last t = CHR ''Z'' then butlast t @ ''+00:00'' else t)
              in fromiso t)"

text \<open>
  The pattern \<open>^(?P<ts>\d{4}-\d{2}-\d{2}T[^ \t]+)\s+emotion=(?P<emo>\w+)\s*$\<close>.
  \<open>date_prefix\<close> is \<open>\d{4}-\d{2}-\d{2}T\<close>, eleven characters. \<open>emo_tail\<close> is
  \<open>\s+emotion=(\w+)\s*$\<close>: each greedy run is followed by a character outside its
  class, so no shorter run can match. \<open>emo_backtrack\<close> gives \<open>[^ \t]+\<close> its longest
  run first and then one character less at a time, as the matcher backtracks.
\<close>

definition date_prefix :: "string \<Rightarrow> bool" where
  "date_prefix s \<longleftrightarrow>
     11 \<le> length s \<and>
     list_all is_digit (take 4 s) \<and> s ! 4 = CHR ''-'' \<and>
     list_all is_digit (take 2 (drop 5 s)) \<and> s ! 7 = CHR ''-'' \<and>
     list_all is_digit (take 2 (drop 8 s)) \<and> s ! 10 = CHR ''T''"

definition emo_tail :: "string \<Rightarrow> string option" where
  "emo_tail s =
     (let w = takeWhile is_space s; s1 = dropWhile is_space s
      in if w = [] then None
         else if \<not> startswith s1 ''emotion='' then None
         else let s2 = drop 8 s1; e = takeWhile is_word s2; s3 = dropWhile is_word s2
              in if e = [] then None
                 else if list_all is_space s3 then Some e else None)"

fun emo_backtrack :: "string \<Rightarrow> nat \<Rightarrow> (string \<times> string) option" where
  "emo_backtrack line 0 = None"
| "emo_backtrack line (Suc k) =
     (case emo_tail (drop (11 + Suc k) line) of
        Some e \<Rightarrow> Some (take (11 + Suc k) line, e)
      | None \<Rightarrow> emo_backtrack line k)"

definition EMO_RE_match :: "string \<Rightarrow> (string \<times> string) option" where
  "EMO_RE_match line =
     (if date_prefix line
      then emo_backtrack line
             (length (takeWhile (\<lambda>c. c \<noteq> CHR 0x20 \<and> c \<noteq> CHR 0x09) (drop 11 line)))
      else None)"

text \<open>The body of the loop of \<open>parse_emotions\<close>: the event of one line, if any.\<close>

definition line_event :: "fromisoformat \<Rightarrow> string \<Rightarrow> EmotionEvent option" where
  "line_event fromiso raw =
     (let line = replace_tab (strip raw)
      in if line = [] then None
         else case EMO_RE_match line of
           None \<Rightarrow>
             (let parts = re_split_ws line
              in if length parts \<ge> 2 \<and> str_contains ''emotion='' (last parts)
                 then let t = parse_iso_z fromiso (hd parts);
                          emo = lower (strip (split_last ''emotion='' (last parts)))
                      in (case t of
                            None \<Rightarrow> None
                          | Some t' \<Rightarrow> if emo \<noteq> [] then Some \<lparr>ts = t', emotion = emo\<rparr> else None)
                 else None)
         | Some (ts_group, emo_group) \<Rightarrow>
             (let t = parse_iso_z fromiso ts_group;
                  emo = lower emo_group
              in (case t of
                    None \<Rightarrow> None
                  | Some t' \<Rightarrow> if emo \<noteq> [] then Some \<lparr>ts = t', emotion = emo\<rparr> else None)))"

fun parse_lines :: "fromisoformat \<Rightarrow> string list \<Rightarrow> EmotionEvent list" where
  "parse_lines fromiso [] = []"
| "parse_lines fromiso (raw # raws) =
     (case line_event fromiso raw of
        None \<Rightarrow> parse_lines fromiso raws
      | Some e \<Rightarrow> e # parse_lines fromiso raws)"

text \<open>\<open>events.sort(key=lambda e: e.ts)\<close> is a stable sort on the timestamp.\<close>

definition parse_emotions :: "fromisoformat \<Rightarrow> string \<Rightarrow> EmotionEvent list" where
  "parse_emotions fromiso text = sort_key ts (parse_lines fromiso (splitlines text))"

text \<open>
  What the parser takes from a line, as the specification tells it: the text of the
  timestamp and the text of the label, from the strict pattern or else from the first
  and the last token of the line.
\<close>

definition line_fields :: "string \<Rightarrow> (string \<times> string) option" where
  "line_fields raw =
     (let line = replace_tab (strip raw)
      in if line = [] then None
         else case EMO_RE_match line of
           Some (ts_group, emo_group) \<Rightarrow> Some (ts_group, lower emo_group)
         | None \<Rightarrow>
             (let parts = re_split_ws line
              in if length parts \<ge> 2 \<and> str_contains ''emotion='' (last parts)
                 then Some (hd parts, lower (strip (split_last ''emotion='' (last parts))))
                 else None))"


definition example_fromiso :: fromisoformat where
  "example_fromiso s =
     (if s = ''2025-01-01T00:00:00+00:00'' then Some (2025, 1, 1, 0, 0, 0, 0)
      else if s = ''2025-01-01T00:00:10.500000+00:00'' then Some (2025, 1, 1, 0, 0, 10, 500000)
      else None)"

definition example_line :: string where
  "example_line =
     ''2025-01-01T00:00:00Z'' @ [CHR 0x09] @ ''extra'' @ [CHR 0x09] @ ''emotion=happy''"

definition example_log :: string where
  "example_log =
     ''2025-01-01T00:00:10.500000Z emotion=sad'' @ [CHR 0x0A] @
     ''not a record'' @ [CHR 0x0A] @
     example_line @ [CHR 0x0A]"

section \<open>Transcript export (mock\_agent\_service.py)\<close>

text \<open>
  \<open>datetime.isoformat()\<close> of a naive datetime: \<open>YYYY-MM-DDTHH:MM:SS\<close>, followed by
  \<open>.ffffff\<close> when the microsecond is not zero.
\<close>

definition zfill :: "nat \<Rightarrow> string \<Rightarrow> string" where
  "zfill k s = replicate (k - length s) (CHR ''0'') @ s"

fun isoformat :: "datetime \<Rightarrow> string" where
  "isoformat (year, month, day, hour, minute, second, microsecond) =
     zfill 4 (str_nat year) @ ''-'' @ zfill 2 (str_nat month) @ ''-'' @ zfill 2 (str_nat day) @
     ''T'' @ zfill 2 (str_nat hour) @ '':'' @ zfill 2 (str_nat minute) @ '':'' @
     zfill 2 (str_nat second) @
     (if microsecond = 0 then [] else ''.'' @ zfill 6 (str_nat microsecond))"

record MockTurn =
  question :: "string option"
  answer :: "string option"
  time :: datetime
  summary :: "string option"

record MockSession =
  session_id :: string
  cv_text :: string
  jd_text :: string
  role :: "string option"
  turns :: "MockTurn list"

text \<open>Python's truth value of an optional string: \<open>None\<close> and \<open>""\<close> are false.\<close>

fun truthy :: "string option \<Rightarrow> bool" where
  "truthy None = False"
| "truthy (Some s) = (s \<noteq> [])"

text \<open>The loop over \<open>s.turns\<close>, with the counter \<open>q_idx\<close> and the lines it appends.\<close>

fun export_turns :: "nat \<Rightarrow> MockTurn list \<Rightarrow> string list" where
  "export_turns q_idx [] = []"
| "export_turns q_idx (t # rest) =
     (let q_idx = (if truthy (MockTurn.question t) then q_idx + 1 else q_idx);
          q_lines =
            (if truthy (MockTurn.question t)
             then [''[Q'' @ str_nat q_idx @ ''] ('' @ isoformat (time t) @ ''Z)'',
                   the (MockTurn.question t), '''']
             else []);
          a_lines =
            (if truthy (MockTurn.answer t)
             then [''[A'' @ str_nat q_idx @ ''] ('' @ isoformat (time t) @ ''Z)'',
                   the (MockTurn.answer t), '''']
             else []);
          s_lines =
            (if truthy (summary t)
             then [''[Summary Q'' @ str_nat q_idx @ '']'', the (summary t), '''']
             else [])
      in q_lines @ a_lines @ s_lines @ [replicate 60 (CHR ''-'')] @ export_turns q_idx rest)"

text \<open>
  The text that \<open>export_transcript_txt\<close> writes to the file. \<open>role_from_jd\<close> stands
  for \<open>self._role_from_jd(s.jd_text, None)\<close> and \<open>now\<close> for the export time.
\<close>

definition transcript_content :: "(string \<Rightarrow> string) \<Rightarrow> datetime \<Rightarrow> MockSession \<Rightarrow> string" where
  "transcript_content role_from_jd now s =
     join [CHR 0x0A]
       ([''=== MOCK INTERVIEW TRANSCRIPT ==='',
         ''Session: '' @ session_id s,
         ''Role: '' @ (if truthy (role s) then the (role s) else role_from_jd (jd_text s)),
         ''Exported (UTC): '' @ isoformat now @ ''Z'',
         ''''] @ export_turns 0 (turns s))"

definition export_transcript_txt ::
  "(string \<times> MockSession) list \<Rightarrow> (string \<Rightarrow> string) \<Rightarrow> datetime \<Rightarrow> string \<Rightarrow> error + string" where
  "export_transcript_txt sessions role_from_jd now sid =
     (case map_of sessions sid of
        None \<Rightarrow> Inl (HTTPException 404)
      | Some s \<Rightarrow> Inr (transcript_content role_from_jd now s))"

section \<open>Transcript parsing (evaluation\_service.py)\<close>

record QATurn =
  q_index :: nat
  question :: string
  answer :: string

text \<open>
  The patterns \<open>^\[Q(\d+)\]\s+\(([^)]+)\)\s*$\<close> and \<open>^\[A(\d+)\]\s+\(([^)]+)\)\s*$\<close>,
  which differ in their first two characters, and \<open>^\[Summary Q(\d+)\]\s*$\<close>. Every
  greedy run is followed by a character outside its class, so the match is the one with
  the longest runs; the result is the text of the first group.
\<close>

definition header_match :: "string \<Rightarrow> string \<Rightarrow> string option" where
  "header_match tag s =
     (if \<not> startswith s tag then None
      else let r = drop (length tag) s;
               ds = takeWhile is_digit r; r1 = dropWhile is_digit r
           in if ds = [] then None
              else if \<not> startswith r1 '']'' then None
              else let r2 = drop 1 r1;
                       w = takeWhile is_space r2; r3 = dropWhile is_space r2
                   in if w = [] then None
                      else if \<not> startswith r3 ''('' then None
                      else let r4 = drop 1 r3;
                               x = takeWhile (\<lambda>c. c \<noteq> CHR '')'') r4;
                               r5 = dropWhile (\<lambda>c. c \<noteq> CHR '')'') r4
                           in if x = [] then None
                              else if \<not> startswith r5 '')'' then None
                              else if list_all is_space (drop 1 r5) then Some ds
                              else None)"

definition Q_HEADER_match :: "string \<Rightarrow> string option" where
  "Q_HEADER_match s = header_match ''[Q'' s"

definition A_HEADER_match :: "string \<Rightarrow> string option" where
  "A_HEADER_match s = header_match ''[A'' s"

definition SUMMARY_match :: "string \<Rightarrow> string option" where
  "SUMMARY_match s =
     (if \<not> startswith s ''[Summary Q'' then None
      else let r = drop 10 s;
               ds = takeWhile is_digit r; r1 = dropWhile is_digit r
           in if ds = [] then None
              else if \<not> startswith r1 '']'' then None
              else if list_all is_space (drop 1 r1) then Some ds
              else None)"

text \<open>The stop predicates handed to \<open>collect_until\<close>, applied to the stripped line.\<close>

definition stop_qa :: "string \<Rightarrow> bool" where
  "stop_qa s \<longleftrightarrow>
     A_HEADER_match s \<noteq> None \<or> Q_HEADER_match s \<noteq> None \<or> SUMMARY_match s \<noteq> None \<or>
     startswith s ''-----''"

definition stop_summary :: "string \<Rightarrow> bool" where
  "stop_summary s \<longleftrightarrow>
     startswith s ''-----'' \<or> Q_HEADER_match s \<noteq> None \<or> A_HEADER_match s \<noteq> None"

text \<open>
  \<open>collect_until\<close> gathers the lines up to the first one whose stripped text satisfies
  the predicate and leaves the index on that line: \<open>collected\<close> is the text it returns,
  \<open>dropWhile\<close> with the same test the lines that remain.
\<close>

definition collected :: "(string \<Rightarrow> bool) \<Rightarrow> string list \<Rightarrow> string" where
  "collected stop_pred ls =
     strip (join [CHR 0x0A] (takeWhile (\<lambda>l. \<not> stop_pred (strip l)) ls))"

text \<open>
  The dict \<open>turns\<close>: index to the optional texts of the keys \<open>question\<close> and
  \<open>answer\<close>. \<open>upd_turn idx g\<close> is \<open>turns.setdefault(idx, {})\<close> followed by an update
  of the entry.
\<close>

type_synonym turn_dict = "(nat \<times> string option \<times> string option) list"

fun upd_turn ::
  "nat \<Rightarrow> (string option \<times> string option \<Rightarrow> string option \<times> string option) \<Rightarrow>
   turn_dict \<Rightarrow> turn_dict" where
  "upd_turn idx g [] = [(idx, g (None, None))]"
| "upd_turn idx g ((k, v) # kvs) =
     (if k = idx then (k, g v) # kvs else (k, v) # upd_turn idx g kvs)"

definition set_question :: "nat \<Rightarrow> string \<Rightarrow> turn_dict \<Rightarrow> turn_dict" where
  "set_question idx q_text d = upd_turn idx (\<lambda>(q, a). (Some q_text, a)) d"

definition set_answer :: "nat \<Rightarrow> string \<Rightarrow> turn_dict \<Rightarrow> turn_dict" where
  "set_answer idx a_text d = upd_turn idx (\<lambda>(q, a). (q, Some a_text)) d"

text \<open>
  The main loop, on the lines from the current index on. \<open>int(m_q.group(1))\<close> and
  \<open>int(m_a.group(1))\<close> stand outside any \<open>try\<close>: the exception of \<open>py_int\<close>
  ends the loop and is the result.
\<close>

function scan :: "string list \<Rightarrow> turn_dict \<Rightarrow> error + turn_dict" where
  "scan [] d = Inr d"
| "scan (l # ls) d =
     (let s = strip l
      in case Q_HEADER_match s of
           Some ds \<Rightarrow>
             (case py_int ds of
                Inl e \<Rightarrow> Inl e
              | Inr idx \<Rightarrow>
                  scan (dropWhile (\<lambda>x. \<not> stop_qa (strip x)) ls)
                       (set_question idx (collected stop_qa ls) d))
         | None \<Rightarrow>
             (case A_HEADER_match s of
                Some ds \<Rightarrow>
                  (case py_int ds of
                     Inl e \<Rightarrow> Inl e
                   | Inr idx \<Rightarrow>
                       scan (dropWhile (\<lambda>x. \<not> stop_qa (strip x)) ls)
                            (set_answer idx (collected stop_qa ls) d))
              | None \<Rightarrow>
                  (case SUMMARY_match s of
                     Some ds \<Rightarrow> scan (dropWhile (\<lambda>x. \<not> stop_summary (strip x)) ls) d
                   | None \<Rightarrow> scan ls d)))"
  by pat_completeness auto
termination
  by (relation "measure (\<lambda>(ls, d). length ls)")
    (auto simp: length_dropWhile_le le_imp_less_Suc)

text \<open>
  \<open>turn_get d idx\<close> is the entry \<open>turns[idx]\<close>, an absent key of the entry being
  \<open>None\<close>; \<open>or_empty\<close> is \<open>x or ""\<close>.
\<close>

definition turn_get :: "turn_dict \<Rightarrow> nat \<Rightarrow> string option \<times> string option" where
  "turn_get d idx = (case map_of d idx of None \<Rightarrow> (None, None) | Some v \<Rightarrow> v)"

definition or_empty :: "string option \<Rightarrow> string" where
  "or_empty x = (case x of None \<Rightarrow> [] | Some t \<Rightarrow> t)"

fun emit_turns :: "turn_dict \<Rightarrow> nat list \<Rightarrow> QATurn list" where
  "emit_turns d [] = []"
| "emit_turns d (idx # idxs) =
     (let q = strip (or_empty (fst (turn_get d idx)));
          a = strip (or_empty (snd (turn_get d idx)))
      in if q \<noteq> [] then \<lparr>q_index = idx, question = q, answer = a\<rparr> # emit_turns d idxs
         else emit_turns d idxs)"

definition rstrip_nl :: "string \<Rightarrow> string" where
  "rstrip_nl s = rev (dropWhile (\<lambda>c. c = CHR 0x0A) (rev s))"

definition transcript_lines :: "string \<Rightarrow> string list" where
  "transcript_lines text = map rstrip_nl (splitlines text)"

definition parse_transcript_to_turns :: "string \<Rightarrow> error + QATurn list" where
  "parse_transcript_to_turns text =
     (let lines = transcript_lines text
      in case scan lines [] of
           Inl e \<Rightarrow> Inl e
         | Inr d \<Rightarrow> Inr (emit_turns d (sort (map fst d))))"

text \<open>
  What a line is for the loop: the question header, or the answer header, of an index,
  and a header whose digits \<open>int\<close> refuses.
\<close>

definition q_header_of :: "nat \<Rightarrow> string \<Rightarrow> bool" where
  "q_header_of idx l \<longleftrightarrow>
     (case Q_HEADER_match (strip l) of None \<Rightarrow> False | Some ds \<Rightarrow> py_int ds = Inr idx)"

definition a_header_of :: "nat \<Rightarrow> string \<Rightarrow> bool" where
  "a_header_of idx l \<longleftrightarrow>
     (case A_HEADER_match (strip l) of None \<Rightarrow> False | Some ds \<Rightarrow> py_int ds = Inr idx)"

definition long_header :: "string \<Rightarrow> bool" where
  "long_header l \<longleftrightarrow>
     (case Q_HEADER_match (strip l) of
        Some ds \<Rightarrow> length ds > MAX_STR_DIGITS
      | None \<Rightarrow>
          (case A_HEADER_match (strip l) of
             Some ds \<Rightarrow> length ds > MAX_STR_DIGITS
           | None \<Rightarrow> False))"

section \<open>The evaluation service (evaluation\_service.py)\<close>

definition dict_setdefault :: "string \<Rightarrow> 'v \<Rightarrow> (string \<times> 'v) list \<Rightarrow> (string \<times> 'v) list" where
  "dict_setdefault k v d = (if map_of d k = None then d @ [(k, v)] else d)"

definition required_envs :: "string list" where
  "required_envs =
     [''AZURE_OPENAI_ENDPOINT'', ''AZURE_OPENAI_API_KEY'',
      ''AZURE_OPENAI_API_VERSION'', ''AZURE_OPENAI_DEPLOYMENT'']"

text \<open>The part of the report that the scores and the error message make up.\<close>

record report =
  emotion_total_events :: nat
  emotion_score :: real
  agent_scores :: "AgentScores option"
  agent_error :: "string option"
  report_overall :: overall

text \<open>
  \<open>EvaluationService.evaluate\<close>. Its surroundings are parameters: \<open>getenv\<close> is
  \<open>os.getenv\<close>; \<open>read_text\<close> gives the content of a file, \<open>None\<close> when there is
  none; \<open>tp\<close> and \<open>ep\<close> are the transcript and emotion paths as given or as the
  resolver finds them, \<open>None\<close> when the resolver raises \<open>FileNotFoundError\<close>;
  \<open>judge\<close> is the construction of \<open>EvaluationAgentService\<close> and its
  \<open>evaluate_turns\<close>, \<open>Inl\<close> carrying the text of the exception it raises. The local
  variable \<open>ds_detail\<close> is \<open>None\<close> while no assignment has bound it; reading it then
  raises \<open>UnboundLocalError\<close>. The list \<open>parsed\<close> (the variable \<open>turns\<close>) is read
  only where it has been bound. The transcript is read and parsed inside the \<open>try\<close>:
  an exception of the parser, which is a \<open>ValueError\<close> of \<open>int\<close>, is caught there
  and reported as \<open>f"{type(e).__name__}: {e}"\<close>; \<open>exception_text\<close> gives that text,
  the name alone for the exceptions that the parser does not raise.
\<close>

fun exception_text :: "error \<Rightarrow> string" where
  "exception_text (ValueError msg) = ''ValueError: '' @ msg"
| "exception_text (UnboundLocalError v) = ''UnboundLocalError''"
| "exception_text FileNotFoundError = ''FileNotFoundError''"
| "exception_text (HTTPException code) = ''HTTPException''"

definition evaluate ::
  "fromisoformat \<Rightarrow> (string \<Rightarrow> string option) \<Rightarrow> (string \<Rightarrow> string option) \<Rightarrow>
   (QATurn list \<Rightarrow> real \<Rightarrow> real \<Rightarrow> string + AgentScores) \<Rightarrow>
   string option \<Rightarrow> string option \<Rightarrow> real \<Rightarrow> real \<Rightarrow> real \<Rightarrow> real \<Rightarrow> error + report" where
  "evaluate fromiso getenv read_text judge tp ep w_knowledge w_attitude w_agent_final w_emotion =
     (case tp of
        None \<Rightarrow> Inl FileNotFoundError
      | Some tp' \<Rightarrow>
     (case ep of
        None \<Rightarrow> Inl FileNotFoundError
      | Some ep' \<Rightarrow>
     (case read_text ep' of
        None \<Rightarrow> Inl FileNotFoundError
      | Some emo_text \<Rightarrow>
          let emo_events = parse_emotions fromiso emo_text;
              emotion_face_score' = score_emotion_face_base10 emo_events;
              missing = filter (\<lambda>k. \<not> truthy (getenv k)) required_envs;
              (scores, err, parsed) =
                (if missing \<noteq> []
                 then (None,
                       Some (''Missing Azure envs: '' @ join '', '' missing @
                             '' (skip agent scoring)''),
                       [])
                 else case read_text tp' of
                        None \<Rightarrow> (None, Some ''Agent scoring failed: FileNotFoundError'', [])
                      | Some text \<Rightarrow>
                          (case parse_transcript_to_turns text of
                             Inl e \<Rightarrow>
                               (None, Some (''Agent scoring failed: '' @ exception_text e), [])
                           | Inr parsed \<Rightarrow>
                               (case judge parsed w_knowledge w_attitude of
                                  Inl e \<Rightarrow>
                                    (None, Some (''Agent scoring failed: '' @ e), parsed)
                                | Inr sc \<Rightarrow> (Some sc, None, parsed))));
              (scores, ds_detail') =
                (case scores of
                   None \<Rightarrow> (None, None)
                 | Some sc \<Rightarrow>
                     let n_valid = length (filter (\<lambda>t. is_valid_answer (answer t)) parsed);
                         (ks_adj, ats_adj, final_adj, d) =
                           apply_data_sufficiency (knowledge_score sc) (attitude_score sc)
                             w_knowledge w_attitude n_valid
                     in (Some (sc\<lparr>knowledge_score := ks_adj, attitude_score := ats_adj,
                                   agent_final_score := final_adj,
                                   explanation :=
                                     dict_setdefault ''data_sufficiency'' (JDetail d)
                                       (explanation sc)\<rparr>),
                         Some d));
              ov = compute_total_patched emotion_face_score' scores w_agent_final w_emotion
          in (case ds_detail' of
                None \<Rightarrow> Inl (UnboundLocalError ''ds_detail'')
              | Some d \<Rightarrow>
                  Inr \<lparr>emotion_total_events = length emo_events,
                       emotion_score = emotion_face_score',
                       agent_scores = scores,
                       agent_error = err,
                       report_overall = ov\<lparr>data_sufficiency := Some d\<rparr>\<rparr>))))"

definition no_env :: "string \<Rightarrow> string option" where
  "no_env k = None"

definition example_files :: "string \<Rightarrow> string option" where
  "example_files p =
     (if p = ''exports/emotion_abcdef.txt'' then Some example_log
      else if p = ''exports/mock_abcdef.txt'' then Some ''[Q1] (t)'' else None)"

definition failing_judge :: "QATurn list \<Rightarrow> real \<Rightarrow> real \<Rightarrow> string + AgentScores" where
  "failing_judge parsed w_k w_a = Inl ''RuntimeError: Missing dependency: openai''"

definition example_transcript :: string where
  "example_transcript =
     ''[Q2] (t)'' @ [CHR 0x0A] @ ''Second?'' @ [CHR 0x0A] @
     ''[Q1] (t)'' @ [CHR 0x0A] @ ''First?'' @ [CHR 0x0A] @
     ''[A2] (t)'' @ [CHR 0x0A] @ ''yes'' @ [CHR 0x0A]"

section \<open>The round trip of a transcript, as the specification states it\<close>

text \<open>
  A text that survives the round trip: one non-empty line, without white space at its
  ends, that is neither a header nor a divider for the parser.
\<close>

definition clean_text :: "string \<Rightarrow> bool" where
  "clean_text t \<longleftrightarrow>
     t \<noteq> [] \<and> \<not> is_space (hd t) \<and> \<not> is_space (last t) \<and>
     list_all (\<lambda>c. \<not> is_linebreak c) t \<and> \<not> stop_qa t"

definition optional_clean :: "string option \<Rightarrow> bool" where
  "optional_clean x \<longleftrightarrow> (case x of None \<Rightarrow> True | Some t \<Rightarrow> t = [] \<or> clean_text t)"

definition well_formed_turn :: "MockTurn \<Rightarrow> bool" where
  "well_formed_turn t \<longleftrightarrow>
     (case MockTurn.question t of None \<Rightarrow> False | Some q \<Rightarrow> clean_text q) \<and>
     optional_clean (MockTurn.answer t) \<and> optional_clean (summary t)"

definition role_line :: "(string \<Rightarrow> string) \<Rightarrow> MockSession \<Rightarrow> string" where
  "role_line role_from_jd s =
     (if truthy (role s) then the (role s) else role_from_jd (jd_text s))"

definition well_formed_session :: "(string \<Rightarrow> string) \<Rightarrow> MockSession \<Rightarrow> bool" where
  "well_formed_session role_from_jd s \<longleftrightarrow>
     list_all well_formed_turn (turns s) \<and>
     list_all (\<lambda>c. \<not> is_linebreak c) (session_id s) \<and>
     list_all (\<lambda>c. \<not> is_linebreak c) (role_line role_from_jd s)"

text \<open>The turns that the round trip is to give back, numbered from \<open>k + 1\<close>.\<close>

fun serialized_turns :: "nat \<Rightarrow> MockTurn list \<Rightarrow> QATurn list" where
  "serialized_turns k [] = []"
| "serialized_turns k (t # rest) =
     \<lparr>q_index = k + 1, question = or_empty (MockTurn.question t),
      answer = or_empty (MockTurn.answer t)\<rparr> # serialized_turns (k + 1) rest"

definition example_turn :: "string \<Rightarrow> string option \<Rightarrow> string option \<Rightarrow> MockTurn" where
  "example_turn q a sm =
     \<lparr>MockTurn.question = Some q, MockTurn.answer = a, time = (2025, 1, 1, 9, 30, 0, 0),
      summary = sm\<rparr>"

definition example_session :: "MockTurn list \<Rightarrow> MockSession" where
  "example_session mts =
     \<lparr>session_id = ''abcdef'', cv_text = ''cv'', jd_text = ''jd'', role = Some ''ai_engineer'',
      turns = mts\<rparr>"

text \<open>The lines that \<open>export_transcript_txt\<close> generates around the texts of a turn.\<close>

definition q_header :: "nat \<Rightarrow> MockTurn \<Rightarrow> string" where
  "q_header k t = ''[Q'' @ str_nat k @ ''] ('' @ isoformat (time t) @ ''Z)''"

definition a_header :: "nat \<Rightarrow> MockTurn \<Rightarrow> string" where
  "a_header k t = ''[A'' @ str_nat k @ ''] ('' @ isoformat (time t) @ ''Z)''"

definition s_header :: "nat \<Rightarrow> string" where
  "s_header k = ''[Summary Q'' @ str_nat k @ '']''"

definition divider :: string where
  "divider = replicate 60 (CHR ''-'')"

definition iso_char :: "char \<Rightarrow> bool" where
  "iso_char c \<longleftrightarrow> is_digit c \<or> c \<in> set ''-T:.''"

text \<open>The dict that the scan of an exported transcript builds, entry by entry.\<close>

fun dict_of :: "nat \<Rightarrow> MockTurn list \<Rightarrow> turn_dict" where
  "dict_of k [] = []"
| "dict_of k (t # rest) =
     (k + 1, MockTurn.question t,
      if truthy (MockTurn.answer t) then MockTurn.answer t else None) # dict_of (k + 1) rest"

definition no_lb :: "string \<Rightarrow> bool" where
  "no_lb l \<longleftrightarrow> (\<forall>c \<in> set l. \<not> is_linebreak c)"

definition header_lines :: "(string \<Rightarrow> string) \<Rightarrow> datetime \<Rightarrow> MockSession \<Rightarrow> string list" where
  "header_lines role_from_jd now s =
     [''=== MOCK INTERVIEW TRANSCRIPT ==='',
      ''Session: '' @ session_id s,
      ''Role: '' @ role_line role_from_jd s,
      ''Exported (UTC): '' @ isoformat now @ ''Z'']"

section \<open>Results about the lifecycle\<close>

text \<open>
  Claim C9. Starting from a fresh service, \<open>start_logging s1\<close> called twice leaves the
  active set equal to \<open>{s1}\<close> with each worker started exactly once, the second call
  changing nothing; \<open>stop_logging s1\<close> with \<open>s1\<close> the only active session sets both
  stop signals; and after \<open>start_logging s1; start_logging s2; stop_logging s1\<close> the
  active set is \<open>{s2}\<close>, both workers are alive with no stop signal, until
  \<open>stop_logging s2\<close> sets both signals.
\<close>

theorem lifecycle_sequences:
  assumes "s1 \<noteq> s2"
  shows "logging_sessions (start_logging s1 (start_logging s1 init_service)) = {s1} \<and>
    cam_starts (start_logging s1 (start_logging s1 init_service)) = 1 \<and>
    log_starts (start_logging s1 (start_logging s1 init_service)) = 1 \<and>
    start_logging s1 (start_logging s1 init_service) = start_logging s1 init_service \<and>
    workers_running (start_logging s1 init_service) \<and>
    workers_signalled (stop_logging s1 (start_logging s1 init_service)) \<and>
    logging_sessions (stop_logging s1 (start_logging s2 (start_logging s1 init_service))) = {s2} \<and>
    workers_running (stop_logging s1 (start_logging s2 (start_logging s1 init_service))) \<and>
    cam_starts (stop_logging s1 (start_logging s2 (start_logging s1 init_service))) = 1 \<and>
    log_starts (stop_logging s1 (start_logging s2 (start_logging s1 init_service))) = 1 \<and>
    workers_signalled
      (stop_logging s2 (stop_logging s1 (start_logging s2 (start_logging s1 init_service)))) \<and>
    logging_sessions
      (stop_logging s2 (stop_logging s1 (start_logging s2 (start_logging s1 init_service)))) = {}"
  using assms
  by (auto simp: start_logging_def stop_logging_def start_camera_def stop_camera_def
      init_service_def workers_running_def workers_signalled_def Let_def)

theorem lifecycle_sequences_witness:
  "''s1'' \<noteq> ''s2'' \<and>
   logging_sessions (start_logging ''s1'' (start_logging ''s1'' init_service)) = {''s1''} \<and>
   cam_starts (start_logging ''s1'' (start_logging ''s1'' init_service)) = 1 \<and>
   log_starts (start_logging ''s1'' (start_logging ''s1'' init_service)) = 1 \<and>
   workers_signalled (stop_logging ''s1'' (start_logging ''s1'' init_service)) \<and>
   workers_running
     (stop_logging ''s1'' (start_logging ''s2'' (start_logging ''s1'' init_service))) \<and>
   workers_signalled
     (stop_logging ''s2''
       (stop_logging ''s1'' (start_logging ''s2'' (start_logging ''s1'' init_service))))"
proof -
  have ne: "''s1'' \<noteq> ''s2''" by simp
  show ?thesis
    using ne lifecycle_sequences [OF ne] by blast
qed

section \<open>Results about rounding\<close>

lemma py_round_mono: "x \<le> y \<Longrightarrow> py_round x nd \<le> py_round y nd"
proof -
  assume xy: "x \<le> y"
  define a where "a = x * 10 ^ nd"
  define b where "b = y * 10 ^ nd"
  have ab: "a \<le> b" using xy by (simp add: a_def b_def)
  define r where "r = (\<lambda>v::real. if v - of_int \<lfloor>v\<rfloor> < 1 / 2 then \<lfloor>v\<rfloor>
      else if 1 / 2 < v - of_int \<lfloor>v\<rfloor> then \<lfloor>v\<rfloor> + 1
      else if even \<lfloor>v\<rfloor> then \<lfloor>v\<rfloor> else \<lfloor>v\<rfloor> + 1)"
  have lo: "\<lfloor>v\<rfloor> \<le> r v" and hi: "r v \<le> \<lfloor>v\<rfloor> + 1" for v
    by (simp_all add: r_def)
  have "r a \<le> r b"
  proof (cases "\<lfloor>a\<rfloor> = \<lfloor>b\<rfloor>")
    case True
    then show ?thesis using ab by (auto simp: r_def)
  next
    case False
    then have "\<lfloor>a\<rfloor> < \<lfloor>b\<rfloor>" using floor_mono [OF ab] by linarith
    then show ?thesis using hi [of a] lo [of b] by linarith
  qed
  then have "(of_int (r a) :: real) / 10 ^ nd \<le> of_int (r b) / 10 ^ nd"
    by (simp add: divide_right_mono)
  then show ?thesis
    by (simp add: py_round_def Let_def a_def b_def r_def)
qed

lemma py_round_of_int: "py_round (of_int k / 10 ^ nd) nd = of_int k / 10 ^ nd"
  by (simp add: py_round_def Let_def)

lemma py_round_0 [simp]: "py_round 0 nd = 0"
  using py_round_of_int [of 0 nd] by simp

lemma py_round_10 [simp]: "py_round 10 2 = 10"
  using py_round_of_int [of 1000 2] by simp

lemma py_round_range: "0 \<le> x \<Longrightarrow> x \<le> 10 \<Longrightarrow> 0 \<le> py_round x 2 \<and> py_round x 2 \<le> 10"
  using py_round_mono [of 0 x 2] py_round_mono [of x 10 2] by simp

lemma clamp_0_10_range: "0 \<le> clamp_0_10 x \<and> clamp_0_10 x \<le> 10"
  by (simp add: clamp_0_10_def)

lemma clamp_0_10_mono: "x \<le> y \<Longrightarrow> clamp_0_10 x \<le> clamp_0_10 y"
  by (auto simp: clamp_0_10_def)

lemma clamp_0_10_id: "0 \<le> x \<Longrightarrow> x \<le> 10 \<Longrightarrow> clamp_0_10 x = x"
  by (simp add: clamp_0_10_def)

section \<open>Results about the emotion scorer\<close>

lemma map_of_bump:
  "map_of (bump k kvs) k' =
     (if k' = k then Some (case map_of kvs k of None \<Rightarrow> 1 | Some v \<Rightarrow> v + 1) else map_of kvs k')"
  by (induction kvs) auto

lemma sum_bump: "sum_list (map snd (bump k kvs)) = Suc (sum_list (map snd kvs))"
  by (induction kvs) auto

lemma foldl_bump_get:
  "dict_get (foldl (\<lambda>counts e. bump (f e) counts) acc es) x 0 =
     dict_get acc x 0 + length (filter (\<lambda>e. f e = x) es)"
proof (induction es arbitrary: acc)
  case Nil
  then show ?case by simp
next
  case (Cons e es)
  have "dict_get (bump (f e) acc) x 0 = dict_get acc x 0 + (if f e = x then 1 else 0)"
    by (simp add: dict_get_def map_of_bump split: option.splits)
  then show ?case using Cons.IH [of "bump (f e) acc"] by simp
qed

lemma foldl_bump_sum:
  "sum_list (map snd (foldl (\<lambda>counts e. bump (f e) counts) acc es)) =
     sum_list (map snd acc) + length es"
  by (induction es arbitrary: acc) (simp_all add: sum_bump)

lemma count_labels_get: "dict_get (count_labels events) x 0 = label_count x events"
  using foldl_bump_get [of "\<lambda>e. strip (lower (emotion e))" "[]" events x]
  by (simp add: count_labels_def label_count_def dict_get_def)

lemma count_labels_total: "sum_list (map snd (count_labels events)) = length events"
  using foldl_bump_sum [of "\<lambda>e. strip (lower (emotion e))" "[]" events]
  by (simp add: count_labels_def)

lemma ratios_get:
  "dict_get (map (\<lambda>(k, v). (k, real v / t)) counts) x 0 = real (dict_get counts x 0) / t"
  by (induction counts) (auto simp: dict_get_def)

lemma score_formula:
  "events \<noteq> [] \<Longrightarrow>
     score_emotion_face_base10 events = spec_emotion_score (\<lambda>x. label_ratio x events)"
  by (simp add: score_emotion_face_base10_def spec_emotion_score_def Let_def ratios_get
      count_labels_get count_labels_total label_ratio_def clamp_0_10_def algebra_simps)

lemma spec_emotion_score_range: "0 \<le> spec_emotion_score r \<and> spec_emotion_score r \<le> 10"
  unfolding spec_emotion_score_def
  using clamp_0_10_range py_round_range by blast


lemma spec_emotion_score_raw: "spec_emotion_score r = py_round (clamp_0_10 (emotion_raw r)) 2"
  by (simp add: spec_emotion_score_def emotion_raw_def)

lemma spec_emotion_score_mono:
  "emotion_raw r1 \<le> emotion_raw r2 \<Longrightarrow> spec_emotion_score r1 \<le> spec_emotion_score r2"
  by (simp add: spec_emotion_score_raw py_round_mono clamp_0_10_mono)

lemmas text_defs = strip_def lstrip_def rstrip_def lower_def lower_char_def is_space_def
  upper_chars_def lower_chars_def

text \<open>
  Claim C2. On the empty list the scorer returns exactly 7.0; on any other list it returns
  the clamp to [0,10] of
  \<open>10 - (1.2 r_angry + 1.0 r_disgust + 0.6 r_fear + 0.4 r_sad) 10
      + (0.15 r_happy + 0.10 r_neutral + 0.08 r_surprise) 10\<close>
  rounded to 2 decimals, \<open>r_x\<close> being the frequency ratio of label \<open>x\<close> over the
  event count; and the score always lies in [0, 10].
\<close>

theorem score_emotion_face_base10_spec:
  "score_emotion_face_base10 events =
     (if events = [] then 7 else spec_emotion_score (\<lambda>x. label_ratio x events)) \<and>
   0 \<le> score_emotion_face_base10 events \<and> score_emotion_face_base10 events \<le> 10"
proof (cases "events = []")
  case True
  then show ?thesis by (simp add: score_emotion_face_base10_def)
next
  case False
  then show ?thesis using score_formula [OF False] spec_emotion_score_range by simp
qed

text \<open>
  Claim C8. For two non-empty event lists whose ratios agree on every category but one,
  the score does not increase when the differing ratio is that of a negative category
  (angry, disgust, fear, sad) and grows, and does not decrease when it is that of a
  positive category (happy, neutral, surprise) and grows.
\<close>

theorem score_monotone_in_each_ratio:
  assumes "es1 \<noteq> []" and "es2 \<noteq> []" and "c \<in> set emotion_labels"
    and "\<forall>x \<in> set emotion_labels. x \<noteq> c \<longrightarrow> label_ratio x es1 = label_ratio x es2"
    and "label_ratio c es1 \<le> label_ratio c es2"
  shows "(c \<in> {''angry'', ''disgust'', ''fear'', ''sad''} \<longrightarrow>
            score_emotion_face_base10 es2 \<le> score_emotion_face_base10 es1) \<and>
         (c \<in> {''happy'', ''neutral'', ''surprise''} \<longrightarrow>
            score_emotion_face_base10 es1 \<le> score_emotion_face_base10 es2)"
proof -
  have neg: "emotion_raw (\<lambda>x. label_ratio x es2) \<le> emotion_raw (\<lambda>x. label_ratio x es1)"
    if "c \<in> {''angry'', ''disgust'', ''fear'', ''sad''}"
    using that assms(4,5) by (auto simp: emotion_raw_def emotion_labels_def)
  have pos: "emotion_raw (\<lambda>x. label_ratio x es1) \<le> emotion_raw (\<lambda>x. label_ratio x es2)"
    if "c \<in> {''happy'', ''neutral'', ''surprise''}"
    using that assms(4,5) by (auto simp: emotion_raw_def emotion_labels_def)
  show ?thesis
    using neg pos spec_emotion_score_mono score_formula [OF assms(1)] score_formula [OF assms(2)]
    by metis
qed

theorem score_monotone_in_each_ratio_witness:
  "[ev ''angry'', ev ''none'', ev ''happy''] \<noteq> [] \<and>
   [ev ''angry'', ev ''angry'', ev ''happy''] \<noteq> [] \<and>
   ''angry'' \<in> set emotion_labels \<and>
   label_ratio ''disgust'' [ev ''angry'', ev ''none'', ev ''happy''] =
     label_ratio ''disgust'' [ev ''angry'', ev ''angry'', ev ''happy''] \<and>
   label_ratio ''fear'' [ev ''angry'', ev ''none'', ev ''happy''] =
     label_ratio ''fear'' [ev ''angry'', ev ''angry'', ev ''happy''] \<and>
   label_ratio ''happy'' [ev ''angry'', ev ''none'', ev ''happy''] =
     label_ratio ''happy'' [ev ''angry'', ev ''angry'', ev ''happy''] \<and>
   label_ratio ''sad'' [ev ''angry'', ev ''none'', ev ''happy''] =
     label_ratio ''sad'' [ev ''angry'', ev ''angry'', ev ''happy''] \<and>
   label_ratio ''surprise'' [ev ''angry'', ev ''none'', ev ''happy''] =
     label_ratio ''surprise'' [ev ''angry'', ev ''angry'', ev ''happy''] \<and>
   label_ratio ''neutral'' [ev ''angry'', ev ''none'', ev ''happy''] =
     label_ratio ''neutral'' [ev ''angry'', ev ''angry'', ev ''happy''] \<and>
   label_ratio ''angry'' [ev ''angry'', ev ''none'', ev ''happy''] \<le>
   label_ratio ''angry'' [ev ''angry'', ev ''angry'', ev ''happy''] \<and>
   score_emotion_face_base10 [ev ''angry'', ev ''angry'', ev ''happy''] \<le>
   score_emotion_face_base10 [ev ''angry'', ev ''none'', ev ''happy'']"
proof -
  have a: "''angry'' \<in> set emotion_labels" by (simp add: emotion_labels_def)
  have b: "\<forall>x \<in> set emotion_labels. x \<noteq> ''angry'' \<longrightarrow>
      label_ratio x [ev ''angry'', ev ''none'', ev ''happy''] =
      label_ratio x [ev ''angry'', ev ''angry'', ev ''happy'']"
    by (simp add: emotion_labels_def label_ratio_def label_count_def ev_def text_defs)
  have c: "label_ratio ''angry'' [ev ''angry'', ev ''none'', ev ''happy''] \<le>
   label_ratio ''angry'' [ev ''angry'', ev ''angry'', ev ''happy'']"
    by (simp add: label_ratio_def label_count_def ev_def text_defs)
  have d: "score_emotion_face_base10 [ev ''angry'', ev ''angry'', ev ''happy''] \<le>
   score_emotion_face_base10 [ev ''angry'', ev ''none'', ev ''happy'']"
    using score_monotone_in_each_ratio [OF _ _ a b c] by simp
  show ?thesis
    using a c d b by (simp add: emotion_labels_def)
qed


section \<open>Results about score fusion\<close>




section \<open>Results about data sufficiency\<close>

lemma num_norm: "(1.0::real) = 1" "(0.0::real) = 0" "(10.0::real) = 10" "real (10::nat) = 10"
  by simp_all

lemma ads_eq:
  "apply_data_sufficiency ks ats w_k w_a n_valid =
     (py_round (spec_adjusted ks w_k (spec_total_w w_k w_a) n_valid) 2,
      py_round (spec_adjusted ats w_a (spec_total_w w_k w_a) n_valid) 2,
      py_round (spec_final ks ats w_k w_a n_valid) 2,
      \<lparr>min_required = 10, n_valid_answers = n_valid,
       coverage_factor = py_round (spec_coverage n_valid) 4,
       bonus = py_round (spec_bonus n_valid) 4,
       raw_knowledge = ks, raw_attitude = ats,
       adjusted_knowledge = py_round (spec_adjusted ks w_k (spec_total_w w_k w_a) n_valid) 2,
       adjusted_attitude = py_round (spec_adjusted ats w_a (spec_total_w w_k w_a) n_valid) 2,
       adjusted_agent_final = py_round (spec_final ks ats w_k w_a n_valid) 2\<rparr>)"
proof (cases "n_valid > 10")
  case True
  then show ?thesis
    unfolding apply_data_sufficiency_def spec_adjusted_def spec_final_def spec_total_w_def
      spec_coverage_def spec_ratio_def spec_bonus_def clamp_0_10_def MIN_REQUIRED_def P_def
      BONUS_MAX_def K_def Let_def
    by (simp only: if_True split_conv num_norm)
next
  case False
  then show ?thesis
    unfolding apply_data_sufficiency_def spec_adjusted_def spec_final_def spec_total_w_def
      spec_coverage_def spec_ratio_def spec_bonus_def clamp_0_10_def MIN_REQUIRED_def P_def
      BONUS_MAX_def K_def Let_def
    by (simp only: if_False split_conv num_norm py_round_0)
qed

lemma spec_bonus_range: "0 \<le> spec_bonus n \<and> spec_bonus n < 0.8"
  by (simp add: spec_bonus_def)

lemma spec_adjusted_range:
  assumes "0 \<le> w" and "0 < tw"
  shows "0 \<le> spec_adjusted raw w tw n \<and> spec_adjusted raw w tw n \<le> 10"
proof -
  have b: "0 \<le> spec_bonus n * (w / tw)" using assms spec_bonus_range [of n] by simp
  have c: "0 \<le> clamp_0_10 (raw * spec_coverage n)" using clamp_0_10_range by blast
  have d: "clamp_0_10 (raw * spec_coverage n) \<le> 10" using clamp_0_10_range by blast
  show ?thesis
    unfolding spec_adjusted_def using b c d by (simp add: min_def)
qed

lemma spec_total_w_pos: "0 \<le> w_k \<Longrightarrow> 0 \<le> w_a \<Longrightarrow> 0 < spec_total_w w_k w_a"
  by (simp add: spec_total_w_def)

lemma spec_coverage_0: "spec_coverage 0 = 0"
  by (simp add: spec_coverage_def spec_ratio_def)

lemma spec_coverage_10: "spec_coverage 10 = 1"
  by (simp add: spec_coverage_def spec_ratio_def)

lemma spec_bonus_20: "spec_bonus 20 = 0.8 * (1 - exp (- 1))"
  by (simp add: spec_bonus_def)

lemma spec_adjusted_0: "spec_adjusted raw w tw 0 = 0"
  by (simp add: spec_adjusted_def spec_coverage_0 clamp_0_10_def)

lemma spec_adjusted_10: "spec_adjusted raw w tw 10 = clamp_0_10 raw"
  by (simp add: spec_adjusted_def spec_coverage_10)

lemma spec_final_0: "spec_final ks ats w_k w_a 0 = 0"
  by (simp add: spec_final_def spec_adjusted_0 clamp_0_10_def)

lemma exp_m1: "exp (- 1 :: real) \<le> 1 / 2"
proof -
  have "(2::real) \<le> exp 1" using exp_ge_add_one_self [of "1::real"] by simp
  then have "1 / exp (1::real) \<le> 1 / 2" by (simp add: field_simps)
  then show ?thesis by (simp add: exp_minus inverse_eq_divide)
qed

lemma py_round_333: "py_round (333 / 1000) 2 = 33 / 100"
  by (simp add: py_round_def Let_def)

theorem apply_data_sufficiency_counterexample:
  "fst (apply_data_sufficiency 0 0 (- 1) 2 20) < 0 \<and>
   fst (apply_data_sufficiency 0.333 0 0.7 0.3 10) = 0.33 \<and>
   fst (apply_data_sufficiency 0.333 0 0.7 0.3 10) \<noteq> clamp_0_10 0.333"
proof -
  have "spec_adjusted 0 (- 1) (spec_total_w (- 1) 2) 20 = - spec_bonus 20"
    using spec_bonus_range [of 20]
    by (simp add: spec_adjusted_def spec_total_w_def clamp_0_10_def)
  also have "\<dots> \<le> - 0.4" using exp_m1 by (simp add: spec_bonus_20)
  finally have "py_round (spec_adjusted 0 (- 1) (spec_total_w (- 1) 2) 20) 2 \<le> py_round (- 0.4) 2"
    by (rule py_round_mono)
  moreover have "py_round (- 0.4) 2 = - 0.4" using py_round_of_int [of "- 40" 2] by simp
  ultimately have a: "fst (apply_data_sufficiency 0 0 (- 1) 2 20) < 0"
    by (simp add: ads_eq)
  have b: "fst (apply_data_sufficiency 0.333 0 0.7 0.3 10) = 0.33"
    using py_round_333 by (simp add: ads_eq spec_adjusted_10 clamp_0_10_def)
  have c: "clamp_0_10 0.333 \<noteq> 0.33" by (simp add: clamp_0_10_def)
  show ?thesis using a b c by simp
qed

text \<open>
  Claim C4, amended. For raw scores in [0,10] and non-negative weights,
  \<open>apply_data_sufficiency\<close> returns, each rounded to 2 decimals, the two raw scores
  scaled by \<open>coverage = min(1, n_valid/10)^1.8\<close> and clamped to [0,10], to which, when
  \<open>n_valid\<close> exceeds 10, the bonus \<open>0.8 (1 - e^(-(n_valid - 10)/10))\<close> is added in
  proportion to the weights with a cap at 10, and the clamped weighted sum of the two;
  all of them lie in [0,10]. With \<open>n_valid = 0\<close> the three results are 0; with
  \<open>n_valid = 10\<close> coverage is 1, the bonus is 0 and the adjusted scores are the raw
  ones (returned rounded); with \<open>n_valid = 20\<close> the bonus is \<open>0.8 (1 - e^(-1))\<close>,
  strictly below 0.8.
\<close>

theorem apply_data_sufficiency_spec:
  assumes "0 \<le> ks" and "ks \<le> 10" and "0 \<le> ats" and "ats \<le> 10"
    and "0 \<le> w_k" and "0 \<le> w_a"
  shows "apply_data_sufficiency ks ats w_k w_a n_valid =
     (py_round (spec_adjusted ks w_k (spec_total_w w_k w_a) n_valid) 2,
      py_round (spec_adjusted ats w_a (spec_total_w w_k w_a) n_valid) 2,
      py_round (spec_final ks ats w_k w_a n_valid) 2,
      \<lparr>min_required = 10, n_valid_answers = n_valid,
       coverage_factor = py_round (spec_coverage n_valid) 4,
       bonus = py_round (spec_bonus n_valid) 4,
       raw_knowledge = ks, raw_attitude = ats,
       adjusted_knowledge = py_round (spec_adjusted ks w_k (spec_total_w w_k w_a) n_valid) 2,
       adjusted_attitude = py_round (spec_adjusted ats w_a (spec_total_w w_k w_a) n_valid) 2,
       adjusted_agent_final = py_round (spec_final ks ats w_k w_a n_valid) 2\<rparr>) \<and>
    0 \<le> spec_adjusted ks w_k (spec_total_w w_k w_a) n_valid \<and>
    spec_adjusted ks w_k (spec_total_w w_k w_a) n_valid \<le> 10 \<and>
    0 \<le> spec_adjusted ats w_a (spec_total_w w_k w_a) n_valid \<and>
    spec_adjusted ats w_a (spec_total_w w_k w_a) n_valid \<le> 10 \<and>
    0 \<le> spec_final ks ats w_k w_a n_valid \<and> spec_final ks ats w_k w_a n_valid \<le> 10 \<and>
    0 \<le> fst (apply_data_sufficiency ks ats w_k w_a n_valid) \<and>
    fst (apply_data_sufficiency ks ats w_k w_a n_valid) \<le> 10 \<and>
    0 \<le> fst (snd (apply_data_sufficiency ks ats w_k w_a n_valid)) \<and>
    fst (snd (apply_data_sufficiency ks ats w_k w_a n_valid)) \<le> 10 \<and>
    0 \<le> fst (snd (snd (apply_data_sufficiency ks ats w_k w_a n_valid))) \<and>
    fst (snd (snd (apply_data_sufficiency ks ats w_k w_a n_valid))) \<le> 10 \<and>
    spec_coverage 0 = 0 \<and>
    fst (apply_data_sufficiency ks ats w_k w_a 0) = 0 \<and>
    fst (snd (apply_data_sufficiency ks ats w_k w_a 0)) = 0 \<and>
    fst (snd (snd (apply_data_sufficiency ks ats w_k w_a 0))) = 0 \<and>
    spec_coverage 10 = 1 \<and> spec_bonus 10 = 0 \<and>
    spec_adjusted ks w_k (spec_total_w w_k w_a) 10 = ks \<and>
    spec_adjusted ats w_a (spec_total_w w_k w_a) 10 = ats \<and>
    fst (apply_data_sufficiency ks ats w_k w_a 10) = py_round ks 2 \<and>
    fst (snd (apply_data_sufficiency ks ats w_k w_a 10)) = py_round ats 2 \<and>
    spec_bonus 20 = 0.8 * (1 - exp (- 1)) \<and> spec_bonus 20 < 0.8"
proof -
  have tw: "0 < spec_total_w w_k w_a" using assms(5,6) by (rule spec_total_w_pos)
  have k: "0 \<le> spec_adjusted ks w_k (spec_total_w w_k w_a) m \<and>
           spec_adjusted ks w_k (spec_total_w w_k w_a) m \<le> 10" for m
    using assms(5) tw by (rule spec_adjusted_range)
  have a: "0 \<le> spec_adjusted ats w_a (spec_total_w w_k w_a) m \<and>
           spec_adjusted ats w_a (spec_total_w w_k w_a) m \<le> 10" for m
    using assms(6) tw by (rule spec_adjusted_range)
  have f: "0 \<le> spec_final ks ats w_k w_a m \<and> spec_final ks ats w_k w_a m \<le> 10" for m
    unfolding spec_final_def by (rule clamp_0_10_range)
  have k10: "spec_adjusted ks w_k (spec_total_w w_k w_a) 10 = ks"
    using assms(1,2) by (simp add: spec_adjusted_10 clamp_0_10_id)
  have a10: "spec_adjusted ats w_a (spec_total_w w_k w_a) 10 = ats"
    using assms(3,4) by (simp add: spec_adjusted_10 clamp_0_10_id)
  have b10: "spec_bonus 10 = 0" by (simp add: spec_bonus_def)
  show ?thesis
    using k [of n_valid] a [of n_valid] f [of n_valid]
      py_round_range [of "spec_adjusted ks w_k (spec_total_w w_k w_a) n_valid"]
      py_round_range [of "spec_adjusted ats w_a (spec_total_w w_k w_a) n_valid"]
      py_round_range [of "spec_final ks ats w_k w_a n_valid"]
      spec_bonus_range [of 20]
    by (simp add: ads_eq spec_coverage_0 spec_coverage_10 spec_adjusted_0 spec_final_0
        k10 a10 b10 spec_bonus_20)
qed

theorem apply_data_sufficiency_spec_witness:
  "(0::real) \<le> 8 \<and> (8::real) \<le> 10 \<and> (0::real) \<le> 6 \<and> (6::real) \<le> 10 \<and>
   (0::real) \<le> 0.7 \<and> (0::real) \<le> 0.3 \<and>
   fst (apply_data_sufficiency 8 6 0.7 0.3 10) = py_round 8 2 \<and>
   fst (snd (apply_data_sufficiency 8 6 0.7 0.3 10)) = py_round 6 2"
  using apply_data_sufficiency_spec [of 8 6 "0.7" "0.3" 10] by simp

section \<open>Results about unrecognised labels\<close>









section \<open>Results about text primitives and the Log Writer line\<close>

lemma splitlines_Nil [simp]: "splitlines [] = []"
  by (simp add: splitlines.simps)

lemma splitlines_LF:
  assumes "\<forall>c \<in> set l. \<not> is_linebreak c"
  shows "splitlines (l @ CHR 0x0A # rest) = l # splitlines rest"
proof -
  have lb: "is_linebreak (CHR 0x0A)" by (simp add: is_linebreak_def)
  have t: "takeWhile (\<lambda>c. \<not> is_linebreak c) (l @ CHR 0x0A # rest) = l"
    using assms lb by (simp add: takeWhile_append2)
  have d: "dropWhile (\<lambda>c. \<not> is_linebreak c) (l @ CHR 0x0A # rest) = CHR 0x0A # rest"
    using assms lb by (simp add: dropWhile_append2)
  show ?thesis
    by (subst splitlines.simps) (simp add: t d skip_lf_def)
qed

lemma splitlines_single:
  assumes "l \<noteq> []" and "\<forall>c \<in> set l. \<not> is_linebreak c"
  shows "splitlines l = [l]"
proof -
  have t: "takeWhile (\<lambda>c. \<not> is_linebreak c) l = l" using assms(2) by simp
  have d: "dropWhile (\<lambda>c. \<not> is_linebreak c) l = []" using assms(2) by simp
  show ?thesis by (subst splitlines.simps) (simp add: t d assms(1))
qed


lemma lstrip_id: "s \<noteq> [] \<Longrightarrow> \<not> is_space (hd s) \<Longrightarrow> lstrip s = s"
  by (cases s) (simp_all add: lstrip_def)

lemma rstrip_id: "s \<noteq> [] \<Longrightarrow> \<not> is_space (last s) \<Longrightarrow> rstrip s = s"
  by (cases s rule: rev_cases) (simp_all add: rstrip_def)


lemma strip_id: "s \<noteq> [] \<Longrightarrow> \<not> is_space (hd s) \<Longrightarrow> \<not> is_space (last s) \<Longrightarrow> strip s = s"
  by (simp add: strip_def lstrip_id rstrip_id)

lemma strip_Nil [simp]: "strip [] = []"
  by (simp add: strip_def lstrip_def rstrip_def)



















section \<open>Results about emotion log parsing\<close>

lemma startswith_prefix: "startswith s p \<longleftrightarrow> prefix p s"
proof
  assume "startswith s p"
  then have "p = take (length p) s" by (simp add: startswith_def)
  then show "prefix p s" using take_is_prefix [of "length p" s] by simp
next
  assume "prefix p s"
  then obtain t where "s = p @ t" by (auto simp: prefix_def)
  then show "startswith s p" by (simp add: startswith_def)
qed

lemma str_contains_sublist: "str_contains sub s \<longleftrightarrow> sublist sub s"
proof (induction s)
  case Nil
  then show ?case by simp
next
  case (Cons c cs)
  then show ?case by (simp add: sublist_Cons_right startswith_prefix)
qed

lemma sublist_suffix_part: "sublist xs zs \<Longrightarrow> sublist xs (ys @ zs)"
proof -
  assume "sublist xs zs"
  then obtain ps ss where "zs = ps @ xs @ ss" by (auto simp: sublist_def)
  then have "ys @ zs = (ys @ ps) @ xs @ ss" by simp
  then show ?thesis unfolding sublist_def by blast
qed

lemma sublist_prefix_part: "sublist xs ys \<Longrightarrow> sublist xs (ys @ zs)"
proof -
  assume "sublist xs ys"
  then obtain ps ss where "ys = ps @ xs @ ss" by (auto simp: sublist_def)
  then have "ys @ zs = ps @ xs @ (ss @ zs)" by simp
  then show ?thesis unfolding sublist_def by blast
qed

lemma sublist_drop: "sublist xs (drop n ys) \<Longrightarrow> sublist xs ys"
  using sublist_suffix_part [of xs "drop n ys" "take n ys"] by simp

lemma sublist_dropWhile: "sublist xs (dropWhile Q ys) \<Longrightarrow> sublist xs ys"
  using sublist_suffix_part [of xs "dropWhile Q ys" "takeWhile Q ys"] by simp

lemma emo_tail_Some:
  assumes "emo_tail s = Some e"
  shows "sublist ''emotion='' s \<and> e \<noteq> []"
proof -
  from assms have st: "startswith (dropWhile is_space s) ''emotion=''" and e: "e \<noteq> []"
    by (auto simp: emo_tail_def Let_def split: if_splits)
  from st have "sublist ''emotion='' (dropWhile is_space s)"
    unfolding startswith_prefix by (rule prefix_imp_sublist)
  then show ?thesis using e sublist_dropWhile by blast
qed

lemma emo_backtrack_Some:
  "emo_backtrack line k = Some (g, e) \<Longrightarrow> sublist ''emotion='' line \<and> e \<noteq> []"
proof (induction k)
  case 0
  then show ?case by simp
next
  case (Suc k)
  show ?case
  proof (cases "emo_tail (drop (11 + Suc k) line)")
    case None
    then show ?thesis using Suc by simp
  next
    case (Some e')
    then have "e' = e" using Suc.prems by simp
    then show ?thesis using emo_tail_Some [OF Some] sublist_drop by blast
  qed
qed

lemma EMO_RE_match_Some:
  "EMO_RE_match line = Some (g, e) \<Longrightarrow> sublist ''emotion='' line \<and> e \<noteq> []"
  unfolding EMO_RE_match_def using emo_backtrack_Some by (auto split: if_splits)

lemma re_split_ws_last:
  "dropWhile (\<lambda>c. \<not> is_space c) s = [] \<Longrightarrow> re_split_ws s = [takeWhile (\<lambda>c. \<not> is_space c) s]"
  by (subst re_split_ws.simps) (simp only: Let_def if_True simp_thms)

lemma re_split_ws_more:
  "dropWhile (\<lambda>c. \<not> is_space c) s \<noteq> [] \<Longrightarrow>
   re_split_ws s = takeWhile (\<lambda>c. \<not> is_space c) s #
                   re_split_ws (dropWhile is_space (dropWhile (\<lambda>c. \<not> is_space c) s))"
  by (subst re_split_ws.simps) (simp only: Let_def if_False simp_thms)

lemma re_split_ws_sublist: "x \<in> set (re_split_ws s) \<Longrightarrow> sublist x s"
proof (induction s arbitrary: x rule: re_split_ws.induct)
  case (1 s)
  let ?tok = "takeWhile (\<lambda>c. \<not> is_space c) s"
  let ?r = "dropWhile (\<lambda>c. \<not> is_space c) s"
  have tok: "sublist ?tok s"
    using sublist_prefix_part [of ?tok ?tok ?r] by (simp only: takeWhile_dropWhile_id sublist_order.order_refl)
  show ?case
  proof (cases "?r = []")
    case True
    then have "x = ?tok" using "1.prems" unfolding re_split_ws_last [OF True] by simp
    then show ?thesis using tok by (simp only:)
  next
    case False
    then have "x = ?tok \<or> x \<in> set (re_split_ws (dropWhile is_space ?r))"
      using "1.prems" unfolding re_split_ws_more [OF False] by simp
    then show ?thesis
    proof
      assume "x = ?tok"
      then show ?thesis using tok by (simp only:)
    next
      assume "x \<in> set (re_split_ws (dropWhile is_space ?r))"
      then have "sublist x (dropWhile is_space ?r)"
        by (rule "1.IH" [OF refl refl False])
      then have "sublist x ?r" by (rule sublist_dropWhile)
      then show ?thesis by (rule sublist_dropWhile)
    qed
  qed
qed

lemma rstrip_prefix: "\<exists>w. t = rstrip t @ w"
proof -
  have "rev (takeWhile is_space (rev t) @ dropWhile is_space (rev t)) = rev (rev t)"
    by (simp only: takeWhile_dropWhile_id)
  then have "rev (dropWhile is_space (rev t)) @ rev (takeWhile is_space (rev t)) = t"
    by (simp only: rev_append rev_rev_ident)
  then have "t = rstrip t @ rev (takeWhile is_space (rev t))"
    by (simp only: rstrip_def)
  then show ?thesis by blast
qed

lemma map_eq_nochange:
  assumes "map f ys = xs" and "\<forall>y. f y \<noteq> y \<longrightarrow> f y \<notin> set xs"
  shows "ys = xs"
proof -
  have "f y = y" if "y \<in> set ys" for y
  proof -
    have "f y \<in> set (map f ys)" using that by simp
    then have "f y \<in> set xs" using assms(1) by simp
    then show ?thesis using assms(2) by blast
  qed
  then have "map f ys = ys" by (simp add: map_idI)
  then show ?thesis using assms(1) by simp
qed

lemma sublist_strip: "sublist xs (strip s) \<Longrightarrow> sublist xs s"
proof -
  assume a: "sublist xs (strip s)"
  obtain w where w: "lstrip s = strip s @ w" using rstrip_prefix [of "lstrip s"]
    unfolding strip_def by blast
  have "sublist xs (strip s @ w)" using a by (rule sublist_prefix_part)
  then have "sublist xs (lstrip s)" by (simp only: w [symmetric])
  then show ?thesis unfolding lstrip_def by (rule sublist_dropWhile)
qed

lemma sublist_replace_tab:
  assumes "sublist xs (replace_tab s)" and "CHR 0x20 \<notin> set xs"
  shows "sublist xs s"
proof -
  define f where "f = (\<lambda>c. if c = CHR 0x09 then CHR 0x20 else c)"
  from assms(1) obtain ps ss where m: "map f s = ps @ (xs @ ss)"
    unfolding sublist_def replace_tab_def f_def by blast
  obtain ps' r where s1: "s = ps' @ r" and r: "xs @ ss = map f r"
    using iffD1 [OF map_eq_append_conv m] by blast
  obtain xs' ss' where s2: "r = xs' @ ss'" and x: "xs = map f xs'"
    using iffD1 [OF map_eq_append_conv r [symmetric]] by blast
  have "\<forall>y. f y \<noteq> y \<longrightarrow> f y \<notin> set xs" using assms(2) by (simp add: f_def)
  then have "xs' = xs" by (rule map_eq_nochange [OF x [symmetric]])
  then have "s = ps' @ xs @ ss'" using s1 s2 by simp
  then show ?thesis unfolding sublist_def by blast
qed

lemma line_event_fields:
  "line_event fromiso raw =
     (case line_fields raw of
        None \<Rightarrow> None
      | Some (tstr, emo) \<Rightarrow>
          (case parse_iso_z fromiso tstr of
             None \<Rightarrow> None
           | Some t \<Rightarrow> if emo \<noteq> [] then Some \<lparr>ts = t, emotion = emo\<rparr> else None))"
proof (cases "replace_tab (strip raw) = []")
  case True
  then show ?thesis by (simp add: line_event_def line_fields_def)
next
  case ne: False
  show ?thesis
  proof (cases "EMO_RE_match (replace_tab (strip raw))")
    case (Some ge)
    obtain g e where ge: "ge = (g, e)" by (cases ge)
    show ?thesis
      using ne Some unfolding ge line_event_def line_fields_def Let_def by simp
  next
    case None
    show ?thesis
    proof (cases "length (re_split_ws (replace_tab (strip raw))) \<ge> 2 \<and>
                  str_contains ''emotion='' (last (re_split_ws (replace_tab (strip raw))))")
      case True
      then show ?thesis
        using ne None unfolding line_event_def line_fields_def Let_def by simp
    next
      case False
      then show ?thesis
        using ne None unfolding line_event_def line_fields_def Let_def by auto
    qed
  qed
qed

lemma emotion_token_no_space: "CHR 0x20 \<notin> set ''emotion=''"
  by simp

lemma line_fields_token:
  assumes "line_fields raw = Some (tstr, emo)"
  shows "sublist ''emotion='' raw"
proof -
  let ?line = "replace_tab (strip raw)"
  have "sublist ''emotion='' ?line"
  proof (cases "EMO_RE_match ?line")
    case (Some ge)
    then obtain g e where "EMO_RE_match ?line = Some (g, e)" by (cases ge) simp
    then show ?thesis using EMO_RE_match_Some by blast
  next
    case None
    let ?parts = "re_split_ws ?line"
    from assms None have c: "length ?parts \<ge> 2 \<and> str_contains ''emotion='' (last ?parts)"
      unfolding line_fields_def Let_def by (simp split: if_splits)
    then have "?parts \<noteq> []" by auto
    then have "last ?parts \<in> set ?parts" by (rule last_in_set)
    then have "sublist (last ?parts) ?line" by (rule re_split_ws_sublist)
    moreover have "sublist ''emotion='' (last ?parts)"
      using c unfolding str_contains_sublist by blast
    ultimately show ?thesis by (meson sublist_order.order_trans)
  qed
  then have "sublist ''emotion='' (strip raw)"
    using emotion_token_no_space by (rule sublist_replace_tab)
  then show ?thesis by (rule sublist_strip)
qed

lemma no_token_no_event:
  "\<not> str_contains ''emotion='' raw \<Longrightarrow> line_event fromiso raw = None"
proof -
  assume a: "\<not> str_contains ''emotion='' raw"
  have "line_fields raw = None"
  proof (cases "line_fields raw")
    case None
    then show ?thesis .
  next
    case (Some p)
    then obtain tstr emo where "line_fields raw = Some (tstr, emo)" by (cases p) simp
    then have "sublist ''emotion='' raw" by (rule line_fields_token)
    then show ?thesis using a unfolding str_contains_sublist by blast
  qed
  then show ?thesis by (simp add: line_event_fields)
qed

lemma line_event_label: "line_event fromiso raw = Some e \<Longrightarrow> emotion e \<noteq> []"
  unfolding line_event_fields by (auto split: option.splits prod.splits if_splits)

lemma parse_lines_set:
  "set (parse_lines fromiso raws) = {e. \<exists>raw \<in> set raws. line_event fromiso raw = Some e}"
  by (induction raws) (auto split: option.splits)

lemma parse_lines_drop:
  "line_event fromiso raw = None \<Longrightarrow>
   parse_lines fromiso (before @ raw # after) = parse_lines fromiso (before @ after)"
  by (induction before) (auto split: option.splits)

lemma example_norm:
  "replace_tab (strip example_line) = ''2025-01-01T00:00:00Z extra emotion=happy''"
  by (simp add: example_line_def replace_tab_def text_defs)

lemma example_nomatch: "EMO_RE_match ''2025-01-01T00:00:00Z extra emotion=happy'' = None"
  by (simp add: EMO_RE_match_def date_prefix_def is_digit_def emo_tail_def is_space_def
      startswith_def)

lemma example_parts:
  "re_split_ws ''2025-01-01T00:00:00Z extra emotion=happy'' =
     [''2025-01-01T00:00:00Z'', ''extra'', ''emotion=happy'']"
  by (simp add: re_split_ws.simps is_space_def Let_def)

lemma example_split_last: "split_last ''emotion='' ''emotion=happy'' = ''happy''"
  by (simp add: split_last.simps startswith_def)

lemma example_event:
  "fromiso ''2025-01-01T00:00:00+00:00'' = Some t \<Longrightarrow>
   line_event fromiso example_line = Some \<lparr>ts = t, emotion = ''happy''\<rparr>"
  unfolding line_event_def example_norm Let_def example_nomatch example_parts
  by (simp add: example_split_last parse_iso_z_def startswith_def text_defs)

lemma example_lines: "splitlines example_line = [example_line]"
  by (rule splitlines_single) (simp_all add: example_line_def is_linebreak_def)

text \<open>
  Claim C6. \<open>parse_emotions\<close> is a total function (no input makes it raise). Its
  result is sorted ascending by timestamp whatever the order of the lines, and holds
  exactly the events of the lines of the text, each with a non-empty label. A line
  without the token \<open>emotion=\<close> gives no event; so does a line whose timestamp text
  does not parse, and a line whose label is empty; a line that gives no event changes
  nothing in the result. The line \<open>2025-01-01T00:00:00Z\textra\temotion=happy\<close> does
  not match the strict pattern and parses, by the fallback, to the single event
  (2025-01-01 00:00:00 UTC, happy).
\<close>

theorem parse_emotions_spec:
  "sorted (map ts (parse_emotions fromiso text)) \<and>
   set (parse_emotions fromiso text) =
     {e. \<exists>raw \<in> set (splitlines text). line_event fromiso raw = Some e} \<and>
   (\<forall>e \<in> set (parse_emotions fromiso text). emotion e \<noteq> []) \<and>
   (\<not> str_contains ''emotion='' raw \<longrightarrow> line_event fromiso raw = None) \<and>
   (line_fields raw = Some (tstr, emo) \<and> parse_iso_z fromiso tstr = None \<longrightarrow>
      line_event fromiso raw = None) \<and>
   (line_fields raw = Some (tstr, emo) \<and> emo = [] \<longrightarrow> line_event fromiso raw = None) \<and>
   (line_event fromiso raw = None \<longrightarrow>
      parse_lines fromiso (before @ raw # after) = parse_lines fromiso (before @ after)) \<and>
   (fromiso ''2025-01-01T00:00:00+00:00'' = Some (2025, 1, 1, 0, 0, 0, 0) \<longrightarrow>
      EMO_RE_match (replace_tab (strip example_line)) = None \<and>
      parse_emotions fromiso example_line =
        [\<lparr>ts = (2025, 1, 1, 0, 0, 0, 0), emotion = ''happy''\<rparr>])"
proof -
  have a: "sorted (map ts (parse_emotions fromiso text))"
    by (simp add: parse_emotions_def)
  have b: "set (parse_emotions fromiso text) =
     {e. \<exists>raw \<in> set (splitlines text). line_event fromiso raw = Some e}"
    by (simp add: parse_emotions_def parse_lines_set)
  have c: "\<forall>e \<in> set (parse_emotions fromiso text). emotion e \<noteq> []"
    unfolding b using line_event_label by blast
  have d: "\<not> str_contains ''emotion='' raw \<longrightarrow> line_event fromiso raw = None"
    using no_token_no_event by blast
  have e: "line_fields raw = Some (tstr, emo) \<and> parse_iso_z fromiso tstr = None \<longrightarrow>
      line_event fromiso raw = None"
    by (simp add: line_event_fields)
  have f: "line_fields raw = Some (tstr, emo) \<and> emo = [] \<longrightarrow> line_event fromiso raw = None"
    by (simp add: line_event_fields split: option.splits)
  have g: "line_event fromiso raw = None \<longrightarrow>
      parse_lines fromiso (before @ raw # after) = parse_lines fromiso (before @ after)"
    using parse_lines_drop by blast
  have h: "fromiso ''2025-01-01T00:00:00+00:00'' = Some (2025, 1, 1, 0, 0, 0, 0) \<longrightarrow>
      EMO_RE_match (replace_tab (strip example_line)) = None \<and>
      parse_emotions fromiso example_line =
        [\<lparr>ts = (2025, 1, 1, 0, 0, 0, 0), emotion = ''happy''\<rparr>]"
    using example_event [of fromiso "(2025, 1, 1, 0, 0, 0, 0)"]
    by (simp add: parse_emotions_def example_lines example_norm example_nomatch)
  show ?thesis using a b c d e f g h by blast
qed

lemma ev_sad: "line_event example_fromiso ''2025-01-01T00:00:10.500000Z emotion=sad'' =
   Some \<lparr>ts = (2025, 1, 1, 0, 0, 10, 500000), emotion = ''sad''\<rparr>"
  by (simp add: line_event_def replace_tab_def text_defs EMO_RE_match_def date_prefix_def
      is_digit_def emo_tail_def startswith_def is_word_def parse_iso_z_def example_fromiso_def)

lemma ev_junk: "line_event example_fromiso ''not a record'' = None"
  by (rule no_token_no_event) (simp add: startswith_def)

lemma example_log_lines:
  "splitlines example_log =
     [''2025-01-01T00:00:10.500000Z emotion=sad'', ''not a record'', example_line]"
proof -
  have 1: "\<forall>c \<in> set ''2025-01-01T00:00:10.500000Z emotion=sad''. \<not> is_linebreak c"
    by (simp add: is_linebreak_def)
  have 2: "\<forall>c \<in> set ''not a record''. \<not> is_linebreak c"
    by (simp add: is_linebreak_def)
  have 3: "\<forall>c \<in> set example_line. \<not> is_linebreak c"
    by (simp add: is_linebreak_def example_line_def)
  have eq: "example_log =
      ''2025-01-01T00:00:10.500000Z emotion=sad'' @ CHR 0x0A #
        (''not a record'' @ CHR 0x0A # (example_line @ CHR 0x0A # []))"
    unfolding example_log_def by (simp only: append_Cons append_Nil append_assoc)
  show ?thesis
    unfolding eq splitlines_LF [OF 1] splitlines_LF [OF 2] splitlines_LF [OF 3] splitlines_Nil
    by (rule refl)
qed

lemma example_log_events:
  "parse_emotions example_fromiso example_log =
     [\<lparr>ts = (2025, 1, 1, 0, 0, 0, 0), emotion = ''happy''\<rparr>,
      \<lparr>ts = (2025, 1, 1, 0, 0, 10, 500000), emotion = ''sad''\<rparr>]"
proof -
  have h: "line_event example_fromiso example_line =
      Some \<lparr>ts = (2025, 1, 1, 0, 0, 0, 0), emotion = ''happy''\<rparr>"
    by (rule example_event) (simp add: example_fromiso_def)
  show ?thesis
    unfolding parse_emotions_def example_log_lines
    by (simp add: ev_sad ev_junk h)
qed

lemma fields_bad_ts: "line_fields ''yesterday emotion=happy'' = Some (''yesterday'', ''happy'')"
  by (simp add: line_fields_def replace_tab_def text_defs EMO_RE_match_def date_prefix_def
      is_digit_def re_split_ws.simps startswith_def split_last.simps)

lemma fields_no_label:
  "line_fields ''2025-01-01T00:00:00Z x emotion='' = Some (''2025-01-01T00:00:00Z'', [])"
  by (simp add: line_fields_def replace_tab_def text_defs EMO_RE_match_def date_prefix_def
      is_digit_def emo_tail_def re_split_ws.simps startswith_def split_last.simps)

theorem parse_emotions_spec_witness:
  "sorted (map ts (parse_emotions example_fromiso example_log)) \<and>
   parse_emotions example_fromiso example_log =
     [\<lparr>ts = (2025, 1, 1, 0, 0, 0, 0), emotion = ''happy''\<rparr>,
      \<lparr>ts = (2025, 1, 1, 0, 0, 10, 500000), emotion = ''sad''\<rparr>] \<and>
   \<not> str_contains ''emotion='' ''not a record'' \<and>
   line_event example_fromiso ''not a record'' = None \<and>
   line_fields ''yesterday emotion=happy'' = Some (''yesterday'', ''happy'') \<and>
   parse_iso_z example_fromiso ''yesterday'' = None \<and>
   line_event example_fromiso ''yesterday emotion=happy'' = None \<and>
   line_fields ''2025-01-01T00:00:00Z x emotion='' = Some (''2025-01-01T00:00:00Z'', []) \<and>
   line_event example_fromiso ''2025-01-01T00:00:00Z x emotion='' = None \<and>
   example_fromiso ''2025-01-01T00:00:00+00:00'' = Some (2025, 1, 1, 0, 0, 0, 0) \<and>
   parse_emotions example_fromiso example_line =
     [\<lparr>ts = (2025, 1, 1, 0, 0, 0, 0), emotion = ''happy''\<rparr>]"
proof -
  have a: "\<not> str_contains ''emotion='' ''not a record''" by (simp add: startswith_def)
  have b: "parse_iso_z example_fromiso ''yesterday'' = None"
    by (simp add: parse_iso_z_def text_defs example_fromiso_def)
  have c: "example_fromiso ''2025-01-01T00:00:00+00:00'' = Some (2025, 1, 1, 0, 0, 0, 0)"
    by (simp add: example_fromiso_def)
  show ?thesis
    using a b c fields_bad_ts fields_no_label example_log_events
      parse_emotions_spec [of example_fromiso example_log "''not a record''"]
      parse_emotions_spec [of example_fromiso example_log "''yesterday emotion=happy''"
        "''yesterday''" "''happy''"]
      parse_emotions_spec [of example_fromiso example_log "''2025-01-01T00:00:00Z x emotion=''"
        "''2025-01-01T00:00:00Z''" "[]"]
    by blast
qed

section \<open>Results about the evaluation service\<close>

text \<open>
  Claim C1 asks that \<open>evaluate\<close> return a report when the judgment step is skipped
  (a required Azure variable is missing) or fails (the transcript cannot be read, the
  parser raises, or the judge raises). What the code does there: once both paths are resolved and the emotion
  log is read, the variable \<open>ds_detail\<close> is still unbound when
  \<open>if ds_detail is not None\<close> reads it, and \<open>evaluate\<close> raises
  \<open>UnboundLocalError\<close> instead of returning.
\<close>

theorem evaluate_without_judgment_raises:
  assumes "tp = Some p" and "ep = Some e" and "read_text e = Some emo_text"
    and "(\<exists>k \<in> set required_envs. \<not> truthy (getenv k)) \<or> read_text p = None \<or>
         (\<exists>body err. read_text p = Some body \<and> parse_transcript_to_turns body = Inl err) \<or>
         (\<exists>body parsed msg. read_text p = Some body \<and>
            parse_transcript_to_turns body = Inr parsed \<and>
            judge parsed w_knowledge w_attitude = Inl msg)"
  shows "evaluate fromiso getenv read_text judge tp ep w_knowledge w_attitude w_agent_final w_emotion
           = Inl (UnboundLocalError ''ds_detail'')"
proof (cases "filter (\<lambda>k. \<not> truthy (getenv k)) required_envs = []")
  case False
  then show ?thesis
    using assms(1-3) unfolding evaluate_def Let_def by simp
next
  case True
  then have n: "\<not> (\<exists>k \<in> set required_envs. \<not> truthy (getenv k))"
    by (simp add: filter_empty_conv)
  show ?thesis
  proof (cases "read_text p")
    case None
    then show ?thesis using assms(1-3) True unfolding evaluate_def Let_def by simp
  next
    case (Some body)
    show ?thesis
    proof (cases "parse_transcript_to_turns body")
      case (Inl err)
      then show ?thesis using assms(1-3) True Some unfolding evaluate_def Let_def by simp
    next
      case (Inr parsed)
      then obtain msg where "judge parsed w_knowledge w_attitude = Inl msg"
        using assms(4) n Some by auto
      then show ?thesis using assms(1-3) True Some Inr unfolding evaluate_def Let_def by simp
    qed
  qed
qed

theorem evaluate_without_judgment_raises_witness:
  "evaluate example_fromiso no_env example_files failing_judge
     (Some ''exports/mock_abcdef.txt'') (Some ''exports/emotion_abcdef.txt'') 0.7 0.3 0.65 0.35
     = Inl (UnboundLocalError ''ds_detail'')"
proof -
  have a: "example_files ''exports/emotion_abcdef.txt'' = Some example_log"
    by (simp add: example_files_def)
  have b: "(\<exists>k \<in> set required_envs. \<not> truthy (no_env k)) \<or>
      example_files ''exports/mock_abcdef.txt'' = None \<or>
      (\<exists>body err. example_files ''exports/mock_abcdef.txt'' = Some body \<and>
         parse_transcript_to_turns body = Inl err) \<or>
      (\<exists>body parsed msg. example_files ''exports/mock_abcdef.txt'' = Some body \<and>
         parse_transcript_to_turns body = Inr parsed \<and>
         failing_judge parsed 0.7 0.3 = Inl msg)"
    by (auto simp: required_envs_def no_env_def)
  show ?thesis
    using evaluate_without_judgment_raises
      [of "Some ''exports/mock_abcdef.txt''" "''exports/mock_abcdef.txt''"
          "Some ''exports/emotion_abcdef.txt''" "''exports/emotion_abcdef.txt''"
          example_files example_log no_env failing_judge "0.7" "0.3" example_fromiso
          "0.65" "0.35", OF refl refl a b] .
qed

section \<open>Results about transcript parsing\<close>

lemma upd_turn_fst:
  "map fst (upd_turn idx g d) =
     (if idx \<in> set (map fst d) then map fst d else map fst d @ [idx])"
proof (induction d)
  case Nil
  then show ?case by simp
next
  case (Cons kv d)
  obtain k v where kv: "kv = (k, v)" by (cases kv)
  show ?case
  proof (cases "k = idx")
    case True
    then show ?thesis using kv by simp
  next
    case False
    then show ?thesis using kv Cons.IH by (cases "idx \<in> set (map fst d)") simp_all
  qed
qed

lemma upd_turn_distinct: "distinct (map fst d) \<Longrightarrow> distinct (map fst (upd_turn idx g d))"
  unfolding upd_turn_fst by simp

lemma turn_get_upd:
  "turn_get (upd_turn idx g d) k = (if k = idx then g (turn_get d idx) else turn_get d k)"
  by (induction d) (auto simp: turn_get_def)

lemma set_question_snd: "snd (turn_get (set_question k q d) idx) = snd (turn_get d idx)"
  by (simp add: set_question_def turn_get_upd split: prod.splits)

lemma set_answer_snd:
  "snd (turn_get (set_answer k a d) idx) = (if idx = k then Some a else snd (turn_get d idx))"
  by (simp add: set_answer_def turn_get_upd split: prod.splits)

lemma emit_turns_member:
  "t \<in> set (emit_turns d idxs) \<Longrightarrow>
   question t \<noteq> [] \<and> q_index t \<in> set idxs \<and>
   question t = strip (or_empty (fst (turn_get d (q_index t)))) \<and>
   answer t = strip (or_empty (snd (turn_get d (q_index t))))"
  by (induction idxs) (auto simp: Let_def split: if_splits)

lemma emit_turns_sorted:
  "sorted_wrt (<) idxs \<Longrightarrow> sorted_wrt (<) (map q_index (emit_turns d idxs))"
proof (induction idxs)
  case Nil
  then show ?case by simp
next
  case (Cons idx idxs)
  have "\<forall>t \<in> set (emit_turns d idxs). idx < q_index t"
    using Cons.prems emit_turns_member [of _ d idxs] by auto
  then show ?case using Cons by (simp add: Let_def)
qed

lemma example_transcript_lines:
  "transcript_lines example_transcript =
     [''[Q2] (t)'', ''Second?'', ''[Q1] (t)'', ''First?'', ''[A2] (t)'', ''yes'']"
  by (simp add: transcript_lines_def example_transcript_def splitlines.simps is_linebreak_def
      skip_lf_def rstrip_nl_def)

lemmas match_defs = Q_HEADER_match_def A_HEADER_match_def SUMMARY_match_def header_match_def
  startswith_def is_digit_def stop_qa_def stop_summary_def

lemma sorted_keys_strict: "distinct ks \<Longrightarrow> sorted_wrt (<) (sort (ks :: nat list))"
  by (simp add: strict_sorted_iff)

lemma scan_ConsE:
  assumes "scan (l # ls) d = Inr d'"
  obtains
    (Q) ds idx where "Q_HEADER_match (strip l) = Some ds" "py_int ds = Inr idx"
      "scan (dropWhile (\<lambda>x. \<not> stop_qa (strip x)) ls)
         (set_question idx (collected stop_qa ls) d) = Inr d'"
  | (A) ds idx where "Q_HEADER_match (strip l) = None" "A_HEADER_match (strip l) = Some ds"
      "py_int ds = Inr idx"
      "scan (dropWhile (\<lambda>x. \<not> stop_qa (strip x)) ls)
         (set_answer idx (collected stop_qa ls) d) = Inr d'"
  | (S) ds where "Q_HEADER_match (strip l) = None" "A_HEADER_match (strip l) = None"
      "SUMMARY_match (strip l) = Some ds"
      "scan (dropWhile (\<lambda>x. \<not> stop_summary (strip x)) ls) d = Inr d'"
  | (P) "Q_HEADER_match (strip l) = None" "A_HEADER_match (strip l) = None"
      "SUMMARY_match (strip l) = None" "scan ls d = Inr d'"
  using assms by (auto simp: Let_def split: option.splits sum.splits)

lemma scan_distinct:
  "scan ls d = Inr d' \<Longrightarrow> distinct (map fst d) \<Longrightarrow> distinct (map fst d')"
proof (induction "length ls" arbitrary: ls d rule: less_induct)
  case less
  show ?case
  proof (cases ls)
    case Nil
    then show ?thesis using less.prems by simp
  next
    case (Cons l rest)
    have short: "length (dropWhile f rest) < length ls" for f
      using Cons length_dropWhile_le [of f rest] by simp
    from less.prems(1) [unfolded Cons] show ?thesis
    proof (cases rule: scan_ConsE)
      case (Q ds idx)
      show ?thesis
        using less.hyps [OF short Q(3)] less.prems(2)
        by (simp add: set_question_def upd_turn_distinct)
    next
      case (A ds idx)
      show ?thesis
        using less.hyps [OF short A(4)] less.prems(2)
        by (simp add: set_answer_def upd_turn_distinct)
    next
      case (S ds)
      show ?thesis using less.hyps [OF short S(4)] less.prems(2) by simp
    next
      case P
      show ?thesis using less.hyps [OF _ P(4)] less.prems(2) Cons by simp
    qed
  qed
qed

lemma scan_answer:
  "scan ls d = Inr d' \<Longrightarrow> snd (turn_get d' idx) \<noteq> None \<Longrightarrow>
   snd (turn_get d idx) \<noteq> None \<or> (\<exists>l \<in> set ls. a_header_of idx l)"
proof (induction "length ls" arbitrary: ls d rule: less_induct)
  case less
  show ?case
  proof (cases ls)
    case Nil
    then show ?thesis using less.prems by simp
  next
    case (Cons l rest)
    have short: "length (dropWhile f rest) < length ls" for f
      using Cons length_dropWhile_le [of f rest] by simp
    from less.prems(1) [unfolded Cons] show ?thesis
    proof (cases rule: scan_ConsE)
      case (Q ds k)
      from less.hyps [OF short Q(3) less.prems(2)] show ?thesis
        unfolding set_question_snd Cons using set_dropWhileD by fastforce
    next
      case (A ds k)
      have h: "a_header_of k l" using A by (simp add: a_header_of_def)
      from less.hyps [OF short A(4) less.prems(2)] show ?thesis
        unfolding set_answer_snd Cons using set_dropWhileD h
        by (cases "idx = k") fastforce+
    next
      case (S ds)
      from less.hyps [OF short S(4) less.prems(2)] show ?thesis
        unfolding Cons using set_dropWhileD by fastforce
    next
      case P
      have "length rest < length ls" using Cons by simp
      from less.hyps [OF this P(4) less.prems(2)] show ?thesis
        unfolding Cons by auto
    qed
  qed
qed

lemma set_question_fst:
  "fst (turn_get (set_question k q d) idx) = (if idx = k then Some q else fst (turn_get d idx))"
  by (simp add: set_question_def turn_get_upd split: prod.splits)

lemma set_answer_fst: "fst (turn_get (set_answer k a d) idx) = fst (turn_get d idx)"
  by (simp add: set_answer_def turn_get_upd split: prod.splits)

lemma scan_keeps_question:
  "scan ls d = Inr d' \<Longrightarrow> \<forall>l \<in> set ls. \<not> q_header_of idx l \<Longrightarrow>
   fst (turn_get d' idx) = fst (turn_get d idx)"
proof (induction "length ls" arbitrary: ls d rule: less_induct)
  case less
  show ?case
  proof (cases ls)
    case Nil
    then show ?thesis using less.prems by simp
  next
    case (Cons l rest)
    have short: "length (dropWhile f rest) < length ls" for f
      using Cons length_dropWhile_le [of f rest] by simp
    have sub: "\<forall>x \<in> set (dropWhile f rest). \<not> q_header_of idx x" for f
      using less.prems(2) Cons set_dropWhileD [of _ f rest] by auto
    from less.prems(1) [unfolded Cons] show ?thesis
    proof (cases rule: scan_ConsE)
      case (Q ds k)
      have "q_header_of k l" using Q by (simp add: q_header_of_def)
      then have "idx \<noteq> k" using less.prems(2) Cons by auto
      then show ?thesis
        using less.hyps [OF short Q(3) sub] by (simp add: set_question_fst)
    next
      case (A ds k)
      show ?thesis
        using less.hyps [OF short A(4) sub] by (simp add: set_answer_fst)
    next
      case (S ds)
      show ?thesis using less.hyps [OF short S(4) sub] .
    next
      case P
      have "length rest < length ls" using Cons by simp
      moreover have "\<forall>x \<in> set rest. \<not> q_header_of idx x" using less.prems(2) Cons by simp
      ultimately show ?thesis using less.hyps [OF _ P(4)] by blast
    qed
  qed
qed

lemma dropWhile_stop:
  "\<not> f l \<Longrightarrow> dropWhile f (pre @ l # post) = dropWhile f pre @ l # post"
  by (induction pre) auto

lemma q_header_of_stop: "q_header_of idx l \<Longrightarrow> stop_qa (strip l) \<and> stop_summary (strip l)"
  by (auto simp: q_header_of_def stop_qa_def stop_summary_def split: option.splits)

lemma a_header_of_stop: "a_header_of idx l \<Longrightarrow> stop_qa (strip l) \<and> stop_summary (strip l)"
  by (auto simp: a_header_of_def stop_qa_def stop_summary_def split: option.splits)

lemma scan_question:
  assumes "scan (pre @ l # post) d = Inr d'" and "q_header_of idx l"
    and "\<forall>x \<in> set post. \<not> q_header_of idx x"
  shows "fst (turn_get d' idx) = Some (collected stop_qa post)"
  using assms(1)
proof (induction "length pre" arbitrary: pre d rule: less_induct)
  case less
  have st: "stop_qa (strip l)" "stop_summary (strip l)"
    using q_header_of_stop [OF assms(2)] by simp_all
  show ?case
  proof (cases pre)
    case Nil
    have sub: "\<forall>x \<in> set (dropWhile f post). \<not> q_header_of idx x" for f
      using assms(3) set_dropWhileD [of _ f post] by auto
    from less.prems [unfolded Nil append_Nil] show ?thesis
    proof (cases rule: scan_ConsE)
      case (Q ds k)
      have "k = idx" using Q assms(2) by (simp add: q_header_of_def)
      then show ?thesis
        using scan_keeps_question [OF Q(3) sub] by (simp add: set_question_fst)
    next
      case (A ds k)
      then show ?thesis using assms(2) by (simp add: q_header_of_def)
    next
      case (S ds)
      then show ?thesis using assms(2) by (simp add: q_header_of_def)
    next
      case P
      then show ?thesis using assms(2) by (simp add: q_header_of_def)
    qed
  next
    case (Cons p pre')
    have short: "length (dropWhile f pre') < length pre" for f
      using Cons length_dropWhile_le [of f pre'] by simp
    have dq: "dropWhile (\<lambda>x. \<not> stop_qa (strip x)) (pre' @ l # post) =
        dropWhile (\<lambda>x. \<not> stop_qa (strip x)) pre' @ l # post"
      using st(1) by (simp add: dropWhile_stop)
    have dsm: "dropWhile (\<lambda>x. \<not> stop_summary (strip x)) (pre' @ l # post) =
        dropWhile (\<lambda>x. \<not> stop_summary (strip x)) pre' @ l # post"
      using st(2) by (simp add: dropWhile_stop)
    from less.prems [unfolded Cons append_Cons] show ?thesis
    proof (cases rule: scan_ConsE)
      case (Q ds k)
      show ?thesis using less.hyps [OF short Q(3) [unfolded dq]] .
    next
      case (A ds k)
      show ?thesis using less.hyps [OF short A(4) [unfolded dq]] .
    next
      case (S ds)
      show ?thesis using less.hyps [OF short S(4) [unfolded dsm]] .
    next
      case P
      have "length pre' < length pre" using Cons by simp
      from less.hyps [OF this P(4)] show ?thesis .
    qed
  qed
qed

lemma py_int_short: "length ds \<le> MAX_STR_DIGITS \<Longrightarrow> \<exists>idx. py_int ds = Inr idx"
  by (simp add: py_int_def)

lemma scan_returns: "\<forall>l \<in> set ls. \<not> long_header l \<Longrightarrow> \<exists>d'. scan ls d = Inr d'"
proof (induction "length ls" arbitrary: ls d rule: less_induct)
  case less
  show ?case
  proof (cases ls)
    case Nil
    then show ?thesis by simp
  next
    case (Cons l rest)
    have short: "length (dropWhile f rest) < length ls" for f
      using Cons length_dropWhile_le [of f rest] by simp
    have sub: "\<forall>x \<in> set (dropWhile f rest). \<not> long_header x" for f
      using less.prems Cons set_dropWhileD [of _ f rest] by auto
    have nl: "\<not> long_header l" using less.prems Cons by simp
    show ?thesis
    proof (cases "Q_HEADER_match (strip l)")
      case (Some ds)
      then have "length ds \<le> MAX_STR_DIGITS" using nl by (simp add: long_header_def)
      then obtain k where k: "py_int ds = Inr k" using py_int_short by blast
      have "\<exists>d'. scan (dropWhile (\<lambda>x. \<not> stop_qa (strip x)) rest)
          (set_question k (collected stop_qa rest) d) = Inr d'"
        by (rule less.hyps [OF short sub])
      then show ?thesis unfolding Cons by (simp add: Some k)
    next
      case qn: None
      show ?thesis
      proof (cases "A_HEADER_match (strip l)")
        case (Some ds)
        then have "length ds \<le> MAX_STR_DIGITS" using nl qn by (simp add: long_header_def)
        then obtain k where k: "py_int ds = Inr k" using py_int_short by blast
        have "\<exists>d'. scan (dropWhile (\<lambda>x. \<not> stop_qa (strip x)) rest)
            (set_answer k (collected stop_qa rest) d) = Inr d'"
          by (rule less.hyps [OF short sub])
        then show ?thesis unfolding Cons by (simp add: qn Some k)
      next
        case an: None
        show ?thesis
        proof (cases "SUMMARY_match (strip l)")
          case (Some ds)
          have "\<exists>d'. scan (dropWhile (\<lambda>x. \<not> stop_summary (strip x)) rest) d = Inr d'"
            by (rule less.hyps [OF short sub])
          then show ?thesis unfolding Cons by (simp add: qn an Some)
        next
          case None
          have "length rest < length ls" using Cons by simp
          moreover have "\<forall>x \<in> set rest. \<not> long_header x" using less.prems Cons by simp
          ultimately have "\<exists>d'. scan rest d = Inr d'" by (rule less.hyps)
          then show ?thesis unfolding Cons by (simp add: qn an None)
        qed
      qed
    qed
  qed
qed

lemma emit_turns_complete:
  "idx \<in> set idxs \<Longrightarrow> strip (or_empty (fst (turn_get d idx))) \<noteq> [] \<Longrightarrow>
   \<lparr>q_index = idx, question = strip (or_empty (fst (turn_get d idx))),
    answer = strip (or_empty (snd (turn_get d idx)))\<rparr> \<in> set (emit_turns d idxs)"
  by (induction idxs) (auto simp: Let_def)

lemma turn_get_key:
  assumes "fst (turn_get d idx) \<noteq> None"
  shows "idx \<in> set (map fst d)"
proof -
  have "map_of d idx \<noteq> None"
    using assms by (cases "map_of d idx") (simp_all add: turn_get_def)
  then show ?thesis by (simp add: map_of_eq_None_iff)
qed

lemma strip_strip: "strip (strip s) = strip s"
proof (cases "strip s = []")
  case True
  then show ?thesis by simp
next
  case False
  define t where "t = lstrip s"
  have r: "rstrip t \<noteq> []" using False by (simp add: strip_def t_def)
  then have tn: "t \<noteq> []" by (auto simp: rstrip_def)
  have "\<not> is_space (hd t)" using tn hd_dropWhile [of is_space s] by (simp add: t_def lstrip_def)
  moreover obtain w where "t = rstrip t @ w" using rstrip_prefix by blast
  then have "hd t = hd (rstrip t)" using r by (metis hd_append2)
  ultimately have h: "\<not> is_space (hd (rstrip t))" by simp
  have "dropWhile is_space (rev t) \<noteq> []" using r by (simp add: rstrip_def)
  then have "\<not> is_space (hd (dropWhile is_space (rev t)))" by (rule hd_dropWhile)
  moreover have "last (rstrip t) = hd (dropWhile is_space (rev t))"
    using r by (simp add: rstrip_def last_rev)
  ultimately have l: "\<not> is_space (last (rstrip t))" by simp
  show ?thesis using strip_id [OF r h l] by (simp add: strip_def t_def)
qed

lemma collected_strip: "strip (collected f ls) = collected f ls"
  by (simp add: collected_def strip_strip)

lemma takeWhile_all: "\<forall>x \<in> set xs. Q x \<Longrightarrow> \<not> Q y \<Longrightarrow> takeWhile Q (xs @ y # ys) = xs"
  by (induction xs) auto

lemma dropWhile_all: "\<forall>x \<in> set xs. Q x \<Longrightarrow> \<not> Q y \<Longrightarrow> dropWhile Q (xs @ y # ys) = y # ys"
  by (induction xs) auto

lemma header_match_generated:
  assumes ds: "list_all is_digit ds" "ds \<noteq> []"
    and x: "\<forall>c \<in> set x. c \<noteq> CHR '')''" "x \<noteq> []"
    and tag: "length tag = 2"
  shows "header_match tag (tag @ ds @ ''] ('' @ x @ '')'') = Some ds"
proof -
  have d: "\<forall>c \<in> set ds. is_digit c" using ds(1) by (simp add: list_all_iff)
  have nd: "\<not> is_digit (CHR '']'')" by (simp add: is_digit_def)
  have t1: "takeWhile is_digit (ds @ CHR '']'' # '' ('' @ x @ '')'') = ds"
    using d nd by (rule takeWhile_all)
  have d1: "dropWhile is_digit (ds @ CHR '']'' # '' ('' @ x @ '')'') = CHR '']'' # '' ('' @ x @ '')''"
    using d nd by (rule dropWhile_all)
  have t2: "takeWhile (\<lambda>c. c \<noteq> CHR '')'') (x @ CHR '')'' # []) = x"
    using x(1) by (intro takeWhile_all) auto
  have d2: "dropWhile (\<lambda>c. c \<noteq> CHR '')'') (x @ CHR '')'' # []) = '')''"
    using x(1) by (intro dropWhile_all) auto
  have sp: "is_space (CHR 0x20)" "\<not> is_space (CHR ''('')" by (simp_all add: is_space_def)
  show ?thesis
    unfolding header_match_def Let_def
    using ds(2) x(2) tag t1 d1 t2 d2 sp by (simp add: startswith_def)
qed

lemma example_scan:
  "scan [''[Q2] (t)'', ''Second?'', ''[Q1] (t)'', ''First?'', ''[A2] (t)'', ''yes''] [] =
     Inr [(2, Some ''Second?'', Some ''yes''), (1, Some ''First?'', None)]"
  by (simp add: match_defs text_defs collected_def set_question_def set_answer_def
      py_int_def MAX_STR_DIGITS_def digit_val_def Let_def)

lemma example_transcript_turns:
  "parse_transcript_to_turns example_transcript =
     Inr [\<lparr>q_index = 1, question = ''First?'', answer = []\<rparr>,
          \<lparr>q_index = 2, question = ''Second?'', answer = ''yes''\<rparr>]"
  unfolding parse_transcript_to_turns_def example_transcript_lines Let_def example_scan
  by (simp add: turn_get_def or_empty_def text_defs)

lemma bare_question_turns: "parse_transcript_to_turns ''[Q1] (t)'' = Inr []"
proof -
  have l: "transcript_lines ''[Q1] (t)'' = [''[Q1] (t)'']"
    by (simp add: transcript_lines_def splitlines.simps is_linebreak_def skip_lf_def
        rstrip_nl_def)
  have s: "scan [''[Q1] (t)''] [] = Inr [(1, Some [], None)]"
    by (simp add: match_defs text_defs collected_def set_question_def
        py_int_def MAX_STR_DIGITS_def digit_val_def Let_def)
  show ?thesis
    unfolding parse_transcript_to_turns_def l Let_def s
    by (simp add: turn_get_def or_empty_def)
qed

lemma str_nat_4300: "str_nat 4300 = ''4300''" and str_nat_4301: "str_nat 4301 = ''4301''"
  by (simp_all add: str_nat.simps digit_char_def)

lemma long_header_raises:
  "parse_transcript_to_turns (''[Q'' @ replicate 4301 (CHR ''1'') @ ''] (t)'') =
     Inl (ValueError (''Exceeds the limit (4300 digits) for integer string conversion: '' @
       ''value has 4301 digits; use sys.set_int_max_str_digits() to increase the limit''))"
proof -
  define ds where "ds = replicate 4301 (CHR ''1'')"
  define L where "L = ''[Q'' @ ds @ ''] ('' @ ''t'' @ '')''"
  have dd: "list_all is_digit ds" "ds \<noteq> []" "length ds = 4301"
    by (simp_all add: ds_def list_all_iff is_digit_def)
  have nlb: "\<forall>c \<in> set L. \<not> is_linebreak c"
    by (auto simp: L_def ds_def is_linebreak_def)
  have ne: "L \<noteq> []" by (simp add: L_def)
  have r: "rstrip_nl L = L" by (simp add: L_def rstrip_nl_def)
  have l: "transcript_lines L = [L]"
    unfolding transcript_lines_def splitlines_single [OF ne nlb] by (simp add: r)
  have "\<not> is_space (hd L)" "\<not> is_space (last L)" by (simp_all add: L_def is_space_def)
  then have st: "strip L = L" using ne by (simp add: strip_id)
  have m: "Q_HEADER_match L = Some ds"
    unfolding Q_HEADER_match_def L_def by (rule header_match_generated) (simp_all add: dd)
  have i: "py_int ds =
     Inl (ValueError (''Exceeds the limit (4300 digits) for integer string conversion: '' @
       ''value has 4301 digits; use sys.set_int_max_str_digits() to increase the limit''))"
    unfolding py_int_def dd(3) MAX_STR_DIGITS_def str_nat_4300 str_nat_4301 by simp
  have s: "scan [L] [] = Inl (ValueError
      (''Exceeds the limit (4300 digits) for integer string conversion: '' @
       ''value has 4301 digits; use sys.set_int_max_str_digits() to increase the limit''))"
    by (simp add: st m i)
  have "parse_transcript_to_turns L = Inl (ValueError
      (''Exceeds the limit (4300 digits) for integer string conversion: '' @
       ''value has 4301 digits; use sys.set_int_max_str_digits() to increase the limit''))"
    unfolding parse_transcript_to_turns_def l Let_def s by simp
  then show ?thesis by (simp add: L_def ds_def)
qed

text \<open>
  Claim C10 says that parsing never raises and that an index whose question header was
  found, but that has no answer, yields a turn. Neither holds of the code as stated: the
  text \<open>[Q1] (t)\<close> has the question header of index 1 and no answer header, and the
  parser returns no turn, the question text being empty; and on a question header whose
  index has 4301 digits the parser raises the \<open>ValueError\<close> of \<open>int\<close>.
\<close>

theorem parse_transcript_to_turns_counterexample:
  "q_header_of 1 ''[Q1] (t)'' \<and>
   parse_transcript_to_turns ''[Q1] (t)'' = Inr [] \<and>
   parse_transcript_to_turns (''[Q'' @ replicate 4301 (CHR ''1'') @ ''] (t)'') =
     Inl (ValueError (''Exceeds the limit (4300 digits) for integer string conversion: '' @
       ''value has 4301 digits; use sys.set_int_max_str_digits() to increase the limit''))"
proof -
  have "q_header_of 1 ''[Q1] (t)''"
    by (simp add: q_header_of_def match_defs text_defs py_int_def MAX_STR_DIGITS_def
        digit_val_def Let_def)
  then show ?thesis using bare_question_turns long_header_raises by simp
qed

text \<open>
  Claim C10, amended. On a text none of whose question and answer headers has an index of
  more than 4300 digits, \<open>parse_transcript_to_turns\<close> returns a list of turns. Every
  turn of the list has a non-empty question; the turns come in strictly increasing order
  of index; a turn whose index is the index of no answer header among the lines of the
  text has the empty string as its answer; and an index that has no answer header, and
  whose last question header is followed by a question text that is not empty once
  stripped, yields the turn of that index, with that question text and the empty string as
  its answer.
\<close>

theorem parse_transcript_to_turns_spec:
  assumes "\<forall>l \<in> set (transcript_lines text). \<not> long_header l"
  shows "\<exists>out. parse_transcript_to_turns text = Inr out \<and>
     (\<forall>t \<in> set out. question t \<noteq> []) \<and>
     sorted_wrt (<) (map q_index out) \<and>
     (\<forall>t \<in> set out.
        (\<forall>l \<in> set (transcript_lines text). \<not> a_header_of (q_index t) l) \<longrightarrow>
        answer t = []) \<and>
     (\<forall>pre l post idx.
        transcript_lines text = pre @ l # post \<and> q_header_of idx l \<and>
        (\<forall>x \<in> set post. \<not> q_header_of idx x) \<and> collected stop_qa post \<noteq> [] \<and>
        (\<forall>x \<in> set (transcript_lines text). \<not> a_header_of idx x) \<longrightarrow>
        \<lparr>q_index = idx, question = collected stop_qa post, answer = []\<rparr> \<in> set out)"
proof -
  define ls where "ls = transcript_lines text"
  obtain d where d: "scan ls [] = Inr d"
    using scan_returns [of ls "[]"] assms unfolding ls_def by blast
  define out where "out = emit_turns d (sort (map fst d))"
  have p: "parse_transcript_to_turns text = Inr out"
    by (simp add: parse_transcript_to_turns_def Let_def d [unfolded ls_def] out_def)
  have a: "\<forall>t \<in> set out. question t \<noteq> []"
    unfolding out_def using emit_turns_member by blast
  have "distinct (map fst d)" using scan_distinct [OF d] by simp
  then have "sorted_wrt (<) (sort (map fst d))" by (rule sorted_keys_strict)
  then have b: "sorted_wrt (<) (map q_index out)"
    unfolding out_def by (rule emit_turns_sorted)
  have na: "snd (turn_get d idx) = None" if "\<forall>l \<in> set ls. \<not> a_header_of idx l" for idx
  proof (rule ccontr)
    assume "snd (turn_get d idx) \<noteq> None"
    from scan_answer [OF d this] show False using that by (simp add: turn_get_def)
  qed
  have c: "answer t = []"
    if t: "t \<in> set out" and n: "\<forall>l \<in> set ls. \<not> a_header_of (q_index t) l" for t
    using emit_turns_member [OF t [unfolded out_def]] na [OF n] by (simp add: or_empty_def)
  have e: "\<lparr>q_index = idx, question = collected stop_qa post, answer = []\<rparr> \<in> set out"
    if sp: "ls = pre @ l # post" and q: "q_header_of idx l"
      and nq: "\<forall>x \<in> set post. \<not> q_header_of idx x"
      and ne: "collected stop_qa post \<noteq> []"
      and n: "\<forall>x \<in> set ls. \<not> a_header_of idx x" for pre l post idx
  proof -
    have f: "fst (turn_get d idx) = Some (collected stop_qa post)"
      using scan_question [OF d [unfolded sp] q nq] .
    then have k: "idx \<in> set (sort (map fst d))" using turn_get_key [of d idx] by simp
    have s: "strip (or_empty (fst (turn_get d idx))) = collected stop_qa post"
      by (simp add: f or_empty_def collected_strip)
    have s2: "strip (or_empty (snd (turn_get d idx))) = []"
      using na [OF n] by (simp add: or_empty_def)
    have "strip (or_empty (fst (turn_get d idx))) \<noteq> []" using s ne by simp
    from emit_turns_complete [OF k this] show ?thesis unfolding s s2 out_def .
  qed
  show ?thesis
  proof (intro exI [of _ out] conjI)
    show "parse_transcript_to_turns text = Inr out" by (rule p)
    show "\<forall>t \<in> set out. question t \<noteq> []" by (rule a)
    show "sorted_wrt (<) (map q_index out)" by (rule b)
    show "\<forall>t \<in> set out.
        (\<forall>l \<in> set (transcript_lines text). \<not> a_header_of (q_index t) l) \<longrightarrow>
        answer t = []"
      using c unfolding ls_def by blast
    show "\<forall>pre l post idx.
        transcript_lines text = pre @ l # post \<and> q_header_of idx l \<and>
        (\<forall>x \<in> set post. \<not> q_header_of idx x) \<and> collected stop_qa post \<noteq> [] \<and>
        (\<forall>x \<in> set (transcript_lines text). \<not> a_header_of idx x) \<longrightarrow>
        \<lparr>q_index = idx, question = collected stop_qa post, answer = []\<rparr> \<in> set out"
      using e unfolding ls_def by blast
  qed
qed

theorem parse_transcript_to_turns_spec_witness:
  "list_all (\<lambda>l. \<not> long_header l) (transcript_lines example_transcript) \<and>
   transcript_lines example_transcript =
     [''[Q2] (t)'', ''Second?''] @ ''[Q1] (t)'' # [''First?'', ''[A2] (t)'', ''yes''] \<and>
   q_header_of 1 ''[Q1] (t)'' \<and>
   list_all (\<lambda>x. \<not> q_header_of 1 x) [''First?'', ''[A2] (t)'', ''yes''] \<and>
   list_all (\<lambda>x. \<not> a_header_of 1 x) (transcript_lines example_transcript) \<and>
   collected stop_qa [''First?'', ''[A2] (t)'', ''yes''] = ''First?'' \<and>
   parse_transcript_to_turns example_transcript =
     Inr [\<lparr>q_index = 1, question = ''First?'', answer = []\<rparr>,
          \<lparr>q_index = 2, question = ''Second?'', answer = ''yes''\<rparr>] \<and>
   (\<exists>out. parse_transcript_to_turns example_transcript = Inr out \<and>
      \<lparr>q_index = 1, question = ''First?'', answer = []\<rparr> \<in> set out \<and>
      sorted_wrt (<) (map q_index out) \<and> list_all (\<lambda>t. question t \<noteq> []) out)"
proof -
  let ?post = "[''First?'', ''[A2] (t)'', ''yes'']"
  have h: "\<forall>l \<in> set (transcript_lines example_transcript). \<not> long_header l"
    unfolding example_transcript_lines
    by (simp add: long_header_def match_defs text_defs MAX_STR_DIGITS_def Let_def)
  have sp: "transcript_lines example_transcript =
      [''[Q2] (t)'', ''Second?''] @ ''[Q1] (t)'' # ?post"
    by (simp add: example_transcript_lines)
  have q: "q_header_of 1 ''[Q1] (t)''"
    by (simp add: q_header_of_def match_defs text_defs py_int_def MAX_STR_DIGITS_def
        digit_val_def Let_def)
  have nq: "\<forall>x \<in> set ?post. \<not> q_header_of 1 x"
    by (simp add: q_header_of_def match_defs text_defs Let_def)
  have na: "\<forall>x \<in> set (transcript_lines example_transcript). \<not> a_header_of 1 x"
    unfolding example_transcript_lines
    by (simp add: a_header_of_def match_defs text_defs py_int_def MAX_STR_DIGITS_def
        digit_val_def Let_def)
  have c: "collected stop_qa ?post = ''First?''"
    by (simp add: collected_def match_defs text_defs Let_def)
  obtain out where o: "parse_transcript_to_turns example_transcript = Inr out"
    and a: "\<forall>t \<in> set out. question t \<noteq> []"
    and b: "sorted_wrt (<) (map q_index out)"
    and e: "\<forall>pre l post idx.
        transcript_lines example_transcript = pre @ l # post \<and> q_header_of idx l \<and>
        (\<forall>x \<in> set post. \<not> q_header_of idx x) \<and> collected stop_qa post \<noteq> [] \<and>
        (\<forall>x \<in> set (transcript_lines example_transcript). \<not> a_header_of idx x) \<longrightarrow>
        \<lparr>q_index = idx, question = collected stop_qa post, answer = []\<rparr> \<in> set out"
    using parse_transcript_to_turns_spec [OF h] by blast
  have "collected stop_qa ?post \<noteq> []" by (simp add: c)
  then have "\<lparr>q_index = 1, question = collected stop_qa ?post, answer = []\<rparr> \<in> set out"
    using e [rule_format, of "[''[Q2] (t)'', ''Second?'']" "''[Q1] (t)''" ?post 1] sp q nq na
    by blast
  then have m: "\<lparr>q_index = 1, question = ''First?'', answer = []\<rparr> \<in> set out"
    unfolding c .
  have x: "\<exists>out. parse_transcript_to_turns example_transcript = Inr out \<and>
      \<lparr>q_index = 1, question = ''First?'', answer = []\<rparr> \<in> set out \<and>
      sorted_wrt (<) (map q_index out) \<and> list_all (\<lambda>t. question t \<noteq> []) out"
    using o m b a by (auto simp: list_all_iff)
  have h': "list_all (\<lambda>l. \<not> long_header l) (transcript_lines example_transcript)"
    using h by (simp add: list_all_iff)
  have nq': "list_all (\<lambda>x. \<not> q_header_of 1 x) ?post" using nq by (simp add: list_all_iff)
  have na': "list_all (\<lambda>x. \<not> a_header_of 1 x) (transcript_lines example_transcript)"
    using na by (simp add: list_all_iff)
  show ?thesis
    using h' sp q nq' na' c example_transcript_turns x by blast
qed

end
